theory Spec2Isabelle
  imports Complex_Main "HOL-Library.Word" "HOL-Library.Log_Nat"
begin

section \<open>Machine types of the control unit\<close>

text \<open>
  Modelled from the spec: the scalar types of \<open>IO_Driver.h\<close>, a header that is not among
  the sources. The spec speaks of numeric values and booleans only; the sources name
  their scalar types by byte width: \<open>ubyte1\<close>, \<open>ubyte2\<close> and \<open>ubyte4\<close> are unsigned
  integers of one, two and four bytes, \<open>float4\<close> is the four-byte floating-point type
  and \<open>double\<close> the eight-byte one. The floating-point formats are taken to be IEEE 754
  binary32 and binary64 with round-to-nearest, ties-to-even, each operation rounded to
  the format of its operands; \<open>bool\<close> with its constants \<open>TRUE\<close> and \<open>FALSE\<close> is taken
  as the truth values.
\<close>

type_synonym ubyte1 = "8 word"
type_synonym ubyte2 = "16 word"
type_synonym ubyte4 = "32 word"

subsection \<open>Floating-point values\<close>

text \<open>
  A floating-point datum is a finite number, the negative zero, an infinity or a NaN;
  \<open>Finite 0\<close> is the positive zero. A finite datum is kept as the rational it stands
  for, and the roundings below say which rationals a format holds.
\<close>

datatype ieee = Finite rat | MinusZero | PlusInf | MinusInf | NaN

type_synonym float4 = ieee
type_synonym double = ieee

text \<open>\<open>ilog2 x\<close> is the binary exponent \<open>\<lfloor>log\<^sub>2 x\<rfloor>\<close> of a positive rational.\<close>

definition ilog2 :: "rat \<Rightarrow> int" where
  "ilog2 x = (if 1 \<le> x then bitlen \<lfloor>x\<rfloor> - 1 else - bitlen (\<lceil>1 / x\<rceil> - 1))"

text \<open>Rounding of a non-negative rational to the nearest integer, ties to even.\<close>

definition rne :: "rat \<Rightarrow> int" where
  "rne x = (let f = \<lfloor>x\<rfloor>; d = x - of_int f in
     if d < 1 / 2 then f
     else if 1 / 2 < d then f + 1
     else if even f then f else f + 1)"

text \<open>
  \<open>fround p emin emax\<close> rounds a rational to the format with \<open>p\<close> significand bits and
  exponents from \<open>emin\<close> to \<open>emax\<close>. The magnitude is rounded on the grid of spacing
  \<open>fgrid\<close>, which is \<open>2 powi (e - p + 1)\<close> for the binary exponent \<open>e\<close> of the magnitude
  (not below \<open>emin\<close>, which gives the subnormal numbers); a result beyond the largest
  finite number becomes an infinity, and a negative number that rounds to zero becomes
  the negative zero.
\<close>

definition fgrid :: "nat \<Rightarrow> int \<Rightarrow> rat \<Rightarrow> rat" where
  "fgrid p emin x = 2 powi (max (ilog2 x) emin - int p + 1)"

definition rmag :: "nat \<Rightarrow> int \<Rightarrow> rat \<Rightarrow> rat" where
  "rmag p emin x = of_int (rne (x / fgrid p emin x)) * fgrid p emin x"

definition fround :: "nat \<Rightarrow> int \<Rightarrow> int \<Rightarrow> rat \<Rightarrow> ieee" where
  "fround p emin emax x =
     (if x = 0 then Finite 0
      else let y = rmag p emin \<bar>x\<bar>
           in if 2 powi (emax + 1) \<le> y then (if 0 < x then PlusInf else MinusInf)
              else if 0 < x then Finite y
              else if y = 0 then MinusZero
              else Finite (- y))"

definition float4_round :: "rat \<Rightarrow> float4" where
  "float4_round = fround 24 (- 126) 127"

definition double_round :: "rat \<Rightarrow> double" where
  "double_round = fround 53 (- 1022) 1023"

subsection \<open>Arithmetic and comparison\<close>

text \<open>
  The number a finite datum stands for, the sign bit of a datum, and the zero and the
  infinity of a given sign.
\<close>

fun fnum :: "ieee \<Rightarrow> rat option" where
  "fnum (Finite x) = Some x"
| "fnum MinusZero = Some 0"
| "fnum PlusInf = None"
| "fnum MinusInf = None"
| "fnum NaN = None"

fun fsignbit :: "ieee \<Rightarrow> bool" where
  "fsignbit (Finite x) = (x < 0)"
| "fsignbit MinusZero = True"
| "fsignbit PlusInf = False"
| "fsignbit MinusInf = True"
| "fsignbit NaN = False"

definition fzero :: "bool \<Rightarrow> ieee" where
  "fzero negative = (if negative then MinusZero else Finite 0)"

definition finf :: "bool \<Rightarrow> ieee" where
  "finf negative = (if negative then MinusInf else PlusInf)"

text \<open>
  The operations take the rounding of the format they are computed in. A sum that is
  exactly zero is the positive zero unless both terms are the negative zero; the sign of
  a product or a quotient is the exclusive or of the signs of its operands.
\<close>

fun fneg :: "ieee \<Rightarrow> ieee" where
  "fneg (Finite x) = (if x = 0 then MinusZero else Finite (- x))"
| "fneg MinusZero = Finite 0"
| "fneg PlusInf = MinusInf"
| "fneg MinusInf = PlusInf"
| "fneg NaN = NaN"

fun fadd :: "(rat \<Rightarrow> ieee) \<Rightarrow> ieee \<Rightarrow> ieee \<Rightarrow> ieee" where
  "fadd rnd NaN b = NaN"
| "fadd rnd a NaN = NaN"
| "fadd rnd (Finite x) (Finite y) = rnd (x + y)"
| "fadd rnd (Finite x) MinusZero = rnd x"
| "fadd rnd MinusZero (Finite y) = rnd y"
| "fadd rnd MinusZero MinusZero = MinusZero"
| "fadd rnd PlusInf MinusInf = NaN"
| "fadd rnd MinusInf PlusInf = NaN"
| "fadd rnd PlusInf b = PlusInf"
| "fadd rnd MinusInf b = MinusInf"
| "fadd rnd a PlusInf = PlusInf"
| "fadd rnd a MinusInf = MinusInf"

definition fsub :: "(rat \<Rightarrow> ieee) \<Rightarrow> ieee \<Rightarrow> ieee \<Rightarrow> ieee" where
  "fsub rnd a b = fadd rnd a (fneg b)"

definition fmul :: "(rat \<Rightarrow> ieee) \<Rightarrow> ieee \<Rightarrow> ieee \<Rightarrow> ieee" where
  "fmul rnd a b =
     (if a = NaN \<or> b = NaN then NaN
      else let negative = (fsignbit a \<noteq> fsignbit b) in
        case (fnum a, fnum b) of
          (Some x, Some y) \<Rightarrow> if x * y = 0 then fzero negative else rnd (x * y)
        | (Some x, None) \<Rightarrow> if x = 0 then NaN else finf negative
        | (None, Some y) \<Rightarrow> if y = 0 then NaN else finf negative
        | (None, None) \<Rightarrow> finf negative)"

definition fdiv :: "(rat \<Rightarrow> ieee) \<Rightarrow> ieee \<Rightarrow> ieee \<Rightarrow> ieee" where
  "fdiv rnd a b =
     (if a = NaN \<or> b = NaN then NaN
      else let negative = (fsignbit a \<noteq> fsignbit b) in
        case (fnum a, fnum b) of
          (Some x, Some y) \<Rightarrow>
            if y = 0 then (if x = 0 then NaN else finf negative)
            else if x = 0 then fzero negative
            else rnd (x / y)
        | (Some x, None) \<Rightarrow> fzero negative
        | (None, Some y) \<Rightarrow> finf negative
        | (None, None) \<Rightarrow> NaN)"

fun fabs :: "ieee \<Rightarrow> ieee" where
  "fabs (Finite x) = Finite \<bar>x\<bar>"
| "fabs MinusZero = Finite 0"
| "fabs PlusInf = PlusInf"
| "fabs MinusInf = PlusInf"
| "fabs NaN = NaN"

text \<open>
  Comparisons; each is false as soon as one side is a NaN, and the two zeros compare
  equal.
\<close>

fun flt :: "ieee \<Rightarrow> ieee \<Rightarrow> bool" where
  "flt NaN b = False"
| "flt a NaN = False"
| "flt (Finite x) (Finite y) = (x < y)"
| "flt (Finite x) MinusZero = (x < 0)"
| "flt MinusZero (Finite y) = (0 < y)"
| "flt MinusZero MinusZero = False"
| "flt a MinusInf = False"
| "flt MinusInf b = True"
| "flt PlusInf b = False"
| "flt a PlusInf = True"

definition fgt :: "ieee \<Rightarrow> ieee \<Rightarrow> bool" where
  "fgt a b = flt b a"

fun fle :: "ieee \<Rightarrow> ieee \<Rightarrow> bool" where
  "fle NaN b = False"
| "fle a NaN = False"
| "fle (Finite x) (Finite y) = (x \<le> y)"
| "fle (Finite x) MinusZero = (x \<le> 0)"
| "fle MinusZero (Finite y) = (0 \<le> y)"
| "fle MinusZero MinusZero = True"
| "fle MinusInf b = True"
| "fle a PlusInf = True"
| "fle PlusInf b = False"
| "fle a MinusInf = False"

text \<open>
  Conversions. An integer operand of a \<open>float4\<close> operation is converted to \<open>float4\<close>;
  a \<open>float4\<close> passed to a \<open>double\<close> parameter keeps its value.
\<close>

definition float4_of_ubyte2 :: "ubyte2 \<Rightarrow> float4" where
  "float4_of_ubyte2 w = float4_round (of_nat (unat w))"

definition float4_of_int :: "int \<Rightarrow> float4" where
  "float4_of_int n = float4_round (of_int n)"

definition double_of_int :: "int \<Rightarrow> double" where
  "double_of_int n = double_round (of_int n)"

text \<open>
  A floating-point value stored into an unsigned integer object loses its fractional
  part (the conversion truncates toward zero). This is what happens to the floating
  constants of the sensor initialisers, and to any voltage put into a \<open>ubyte2\<close> field.
\<close>

definition ubyte2_of_floating :: "rat \<Rightarrow> ubyte2" where
  "ubyte2_of_floating c = word_of_int (if 0 \<le> c then \<lfloor>c\<rfloor> else \<lceil>c\<rceil>)"

definition ubyte1_of_floating :: "rat \<Rightarrow> ubyte1" where
  "ubyte1_of_floating c = word_of_int (if 0 \<le> c then \<lfloor>c\<rfloor> else \<lceil>c\<rceil>)"

text \<open>
  The number held by a datum of the \<open>float4\<close> format, if it holds one: a finite datum
  belongs to the format when the rounding leaves it as it is. \<open>float4_max\<close> is the largest
  finite number of the format.
\<close>

fun float4_value :: "float4 \<Rightarrow> rat option" where
  "float4_value (Finite x) = (if float4_round x = Finite x then Some x else None)"
| "float4_value MinusZero = Some 0"
| "float4_value PlusInf = None"
| "float4_value MinusInf = None"
| "float4_value NaN = None"

definition float4_max :: rat where
  "float4_max = (2 ^ 24 - 1) * 2 ^ 104"

section \<open>Sensor objects (sensors.h)\<close>

record Sensor =
  canMessageIdOffset :: ubyte1
  specMin :: ubyte2
  specMax :: ubyte2
  isCalibrated :: bool
  calibMin :: ubyte2
  calibMax :: ubyte2
  calibNormal :: ubyte2
  sensorValue :: ubyte2
  fresh :: bool
  calibratedValue :: ubyte2

text \<open>
  A brace initialiser fills the fields in declaration order and zeroes the rest. The
  instantiations of the header give at most the first three fields.
\<close>

fun Sensor_initializer :: "rat list \<Rightarrow> Sensor" where
  "Sensor_initializer cs =
     \<lparr> canMessageIdOffset = ubyte1_of_floating (if 0 < length cs then cs ! 0 else 0),
       specMin = ubyte2_of_floating (if 1 < length cs then cs ! 1 else 0),
       specMax = ubyte2_of_floating (if 2 < length cs then cs ! 2 else 0),
       isCalibrated = False,
       calibMin = 0,
       calibMax = 0,
       calibNormal = 0,
       sensorValue = 0,
       fresh = False,
       calibratedValue = 0 \<rparr>"

definition Sensor_TPS0_init :: Sensor where
  "Sensor_TPS0_init = Sensor_initializer [0, 1 / 2, 9 / 2]"

definition Sensor_TPS1_init :: Sensor where
  "Sensor_TPS1_init = Sensor_initializer [0, 9 / 2, 1 / 2]"

definition Sensor_BPS0_init :: Sensor where
  "Sensor_BPS0_init = Sensor_initializer [1, 1 / 2, 9 / 2]"

definition Sensor_WSS_FL_init :: Sensor where
  "Sensor_WSS_FL_init = Sensor_initializer [3]"

definition Sensor_WSS_FR_init :: Sensor where
  "Sensor_WSS_FR_init = Sensor_initializer [3]"

definition Sensor_WSS_RL_init :: Sensor where
  "Sensor_WSS_RL_init = Sensor_initializer [3]"

definition Sensor_WSS_RR_init :: Sensor where
  "Sensor_WSS_RR_init = Sensor_initializer [3]"

definition Sensor_WPS_FL_init :: Sensor where
  "Sensor_WPS_FL_init = Sensor_initializer [4]"

definition Sensor_WPS_FR_init :: Sensor where
  "Sensor_WPS_FR_init = Sensor_initializer [4]"

definition Sensor_WPS_RL_init :: Sensor where
  "Sensor_WPS_RL_init = Sensor_initializer [4]"

definition Sensor_WPS_RR_init :: Sensor where
  "Sensor_WPS_RR_init = Sensor_initializer [4]"

definition Sensor_LVBattery_init :: Sensor where
  "Sensor_LVBattery_init = Sensor_initializer [10]"

text \<open>The two torque-encoder objects are the globals the throttle functions work on.\<close>

record globals =
  Sensor_TPS0 :: Sensor
  Sensor_TPS1 :: Sensor

definition globals_init :: globals where
  "globals_init = \<lparr> Sensor_TPS0 = Sensor_TPS0_init, Sensor_TPS1 = Sensor_TPS1_init \<rparr>"

section \<open>Output calculations\<close>

subsection \<open>getPercent\<close>

definition getPercent :: "float4 \<Rightarrow> float4 \<Rightarrow> float4 \<Rightarrow> bool \<Rightarrow> float4" where
  "getPercent v mn mx zeroToOneOnly =
     (let retVal = fdiv float4_round (fsub float4_round v mn) (fsub float4_round mx mn)
      in if zeroToOneOnly then
           (if fgt retVal (float4_of_int 1) then float4_of_int 1
            else if flt retVal (float4_of_int 0) then float4_of_int 0
            else retVal)
         else retVal)"


subsection \<open>GetThrottlePosition\<close>

definition outOfSpec :: "Sensor \<Rightarrow> bool" where
  "outOfSpec s \<longleftrightarrow> sensorValue s < specMin s \<or> sensorValue s > specMax s"

definition TPS0PedalPercent :: "globals \<Rightarrow> float4" where
  "TPS0PedalPercent g =
     getPercent (float4_of_ubyte2 (sensorValue (Sensor_TPS0 g)))
                (float4_of_ubyte2 (calibMin (Sensor_TPS0 g)))
                (float4_of_ubyte2 (calibMax (Sensor_TPS0 g))) False"

definition TPS1PedalPercent :: "globals \<Rightarrow> float4" where
  "TPS1PedalPercent g =
     getPercent (float4_of_ubyte2 (sensorValue (Sensor_TPS1 g)))
                (float4_of_ubyte2 (calibMin (Sensor_TPS1 g)))
                (float4_of_ubyte2 (calibMax (Sensor_TPS1 g))) False"

text \<open>
  The implausibility test \<open>fabs(TPS1PedalPercent - TPS0PedalPercent) > .1\<close>: the
  difference is a \<open>float4\<close> subtraction, \<open>fabs\<close> and the comparison are in \<open>double\<close>,
  and \<open>.1\<close> is the \<open>double\<close> nearest to one tenth.
\<close>

definition TPSDiscrepancy :: "globals \<Rightarrow> bool" where
  "TPSDiscrepancy g \<longleftrightarrow>
     fgt (fabs (fsub float4_round (TPS1PedalPercent g) (TPS0PedalPercent g)))
         (double_round (1 / 10))"

text \<open>The error counter \<open>TPSErrorState\<close> as it stands before the final test.\<close>

definition TPSErrorState :: "globals \<Rightarrow> ubyte1" where
  "TPSErrorState g =
     (let e0 = 0;
          e1 = (if outOfSpec (Sensor_TPS0 g) then e0 + 1 else e0);
          e2 = (if outOfSpec (Sensor_TPS1 g) then e1 + 1 else e1);
          e3 = (if TPSDiscrepancy g then e2 + 1 else e2);
          e4 = (if \<not> isCalibrated (Sensor_TPS0 g) \<or> \<not> isCalibrated (Sensor_TPS1 g)
                then e3 + 1 else e3)
      in e4)"

definition GetThrottlePosition :: "globals \<Rightarrow> float4" where
  "GetThrottlePosition g =
     (if TPSErrorState g > 0 then float4_of_int 0
      else fdiv float4_round
             (fadd float4_round (TPS0PedalPercent g) (TPS1PedalPercent g))
             (float4_of_int 2))"

subsection \<open>calibrateTPS\<close>

text \<open>
  The calibration loop polls the real-time clock and reads the sensor objects, which the
  main loop refreshes meanwhile. Both are inputs of the model: an observation holds what
  \<open>IO_RTC_GetTimeUS\<close> returns at one evaluation of the loop condition and the sample
  values the two sensor objects hold when the loop body then runs. The run is given the
  list of its successive observations; it has returned once an observation shows the
  time limit reached, and \<open>None\<close> says that the observations ended with the loop
  still running.
\<close>

record observation =
  elapsedUS :: ubyte4
  TPS0_sample :: ubyte2
  TPS1_sample :: ubyte2

definition calibrateTPS_reset :: "globals \<Rightarrow> globals" where
  "calibrateTPS_reset g =
     g\<lparr> Sensor_TPS0 := (Sensor_TPS0 g)\<lparr> calibMin := specMax (Sensor_TPS0 g),
                                         calibMax := specMin (Sensor_TPS0 g),
                                         isCalibrated := False \<rparr>,
        Sensor_TPS1 := (Sensor_TPS1 g)\<lparr> calibMin := specMax (Sensor_TPS1 g),
                                         calibMax := specMin (Sensor_TPS1 g),
                                         isCalibrated := False \<rparr> \<rparr>"

definition sample_sensors :: "observation \<Rightarrow> globals \<Rightarrow> globals" where
  "sample_sensors ob g =
     g\<lparr> Sensor_TPS0 := (Sensor_TPS0 g)\<lparr> sensorValue := TPS0_sample ob \<rparr>,
        Sensor_TPS1 := (Sensor_TPS1 g)\<lparr> sensorValue := TPS1_sample ob \<rparr> \<rparr>"

definition recordMinMax :: "Sensor \<Rightarrow> Sensor" where
  "recordMinMax s =
     (let s1 = (if sensorValue s < calibMin s then s\<lparr> calibMin := sensorValue s \<rparr> else s);
          s2 = (if sensorValue s1 > calibMax s1 then s1\<lparr> calibMax := sensorValue s1 \<rparr> else s1)
      in s2)"

definition calibrateTPS_body :: "globals \<Rightarrow> globals" where
  "calibrateTPS_body g =
     g\<lparr> Sensor_TPS0 := recordMinMax (Sensor_TPS0 g),
        Sensor_TPS1 := recordMinMax (Sensor_TPS1 g) \<rparr>"

fun calibrateTPS_loop :: "ubyte4 \<Rightarrow> observation list \<Rightarrow> globals \<Rightarrow> globals option" where
  "calibrateTPS_loop limit [] g = None"
| "calibrateTPS_loop limit (ob # obs) g =
     (if elapsedUS ob < limit
      then calibrateTPS_loop limit obs (calibrateTPS_body (sample_sensors ob g))
      else Some g)"

definition calibrateTPS_commit :: "globals \<Rightarrow> globals" where
  "calibrateTPS_commit g =
     g\<lparr> Sensor_TPS0 := (Sensor_TPS0 g)\<lparr> isCalibrated := True \<rparr>,
        Sensor_TPS1 := (Sensor_TPS1 g)\<lparr> isCalibrated := True \<rparr> \<rparr>"

definition calibrateTPS :: "ubyte1 \<Rightarrow> observation list \<Rightarrow> globals \<Rightarrow> globals option" where
  "calibrateTPS secondsToRunCalibration obs g =
     (case calibrateTPS_loop (ucast secondsToRunCalibration * 1000 * 1000) obs
             (calibrateTPS_reset g) of
        None \<Rightarrow> None
      | Some g' \<Rightarrow> Some (calibrateTPS_commit g'))"

subsection \<open>Wheel speed conversions\<close>

definition NUM_BUMPS_D :: double where
  "NUM_BUMPS_D = double_of_int 16"

definition WHEEL_DIAMETER_D :: double where
  "WHEEL_DIAMETER_D = double_of_int 18"

definition freq_to_rpm :: "double \<Rightarrow> double" where
  "freq_to_rpm freq =
     fmul double_round (fdiv double_round freq NUM_BUMPS_D) (double_round 60)"

definition rpm_to_mph :: "double \<Rightarrow> double" where
  "rpm_to_mph rpm =
     fdiv double_round
       (fmul double_round
          (fmul double_round
             (fmul double_round (double_round (314159265 / 100000000)) WHEEL_DIAMETER_D)
             rpm)
          (double_round 60))
       (double_round 63360)"

subsection \<open>Example states\<close>

text \<open>
  A pair of torque encoders configured alike, both calibrated: datasheet range
  \<open>smin\<close> to \<open>smax\<close>, calibrated range \<open>lo\<close> to \<open>hi\<close>, current readings \<open>v0\<close> and \<open>v1\<close>.
  The theorems below are instantiated at such states.
\<close>

definition example_pair ::
  "ubyte2 \<Rightarrow> ubyte2 \<Rightarrow> ubyte2 \<Rightarrow> ubyte2 \<Rightarrow> ubyte2 \<Rightarrow> ubyte2 \<Rightarrow> globals" where
  "example_pair smin smax lo hi v0 v1 =
     \<lparr> Sensor_TPS0 = Sensor_TPS0_init\<lparr> specMin := smin, specMax := smax, isCalibrated := True,
                                          calibMin := lo, calibMax := hi, sensorValue := v0 \<rparr>,
       Sensor_TPS1 = Sensor_TPS0_init\<lparr> specMin := smin, specMax := smax, isCalibrated := True,
                                          calibMin := lo, calibMax := hi, sensorValue := v1 \<rparr> \<rparr>"


text \<open>The calibration data of a sensor object: \<open>calibMin\<close>, \<open>calibMax\<close> and \<open>isCalibrated\<close>.\<close>

definition calibration_of :: "Sensor \<Rightarrow> ubyte2 \<times> ubyte2 \<times> bool" where
  "calibration_of s = (calibMin s, calibMax s, isCalibrated s)"

text \<open>
  Observations of one-second calibration runs: the pedal held still at the reading 2,
  up to the observation at which the clock shows the second elapsed; the pedal swept
  over the readings 0 to 4, before the second has elapsed; and a sweep over the voltages
  0.5 to 4.5 as the 16-bit \<open>sensorValue\<close> fields hold them, up to the observation at
  which the second has elapsed. The last run sweeps the pedal over the readings 1 to 3.
\<close>

definition observe :: "ubyte4 \<Rightarrow> ubyte2 \<Rightarrow> observation" where
  "observe t v = \<lparr> elapsedUS = t, TPS0_sample = v, TPS1_sample = v \<rparr>"

definition pedal_at_rest :: "observation list" where
  "pedal_at_rest = [observe 0 2, observe 500000 2, observe 1000000 2]"

definition pedal_sweep :: "observation list" where
  "pedal_sweep =
     [observe 0 0, observe 200000 1, observe 400000 2, observe 600000 3, observe 800000 4]"

definition voltage_sweep :: "observation list" where
  "voltage_sweep =
     [observe 0 (ubyte2_of_floating (1 / 2)), observe 200000 (ubyte2_of_floating (3 / 2)),
      observe 400000 (ubyte2_of_floating (5 / 2)), observe 600000 (ubyte2_of_floating (7 / 2)),
      observe 800000 (ubyte2_of_floating (9 / 2)), observe 1000000 (ubyte2_of_floating (9 / 2))]"

definition pedal_travel :: "observation list" where
  "pedal_travel = [observe 0 1, observe 300000 2, observe 600000 3, observe 1000000 3]"

section \<open>Properties of the floating-point model\<close>

subsection \<open>The binary exponent\<close>

lemma pow2_pos: "0 < (2::rat) powi k"
  by simp

lemma pow2_less_cancel: assumes "(2::rat) powi m < 2 powi n" shows "m < n"
proof (rule ccontr)
  assume "\<not> m < n"
  then have "n \<le> m" by simp
  then have "(2::rat) powi n \<le> 2 powi m" by (rule power_int_increasing) simp
  with assms show False by simp
qed

lemma ilog2_lower: assumes "0 < x" shows "2 powi (ilog2 x) \<le> x"
proof (cases "1 \<le> x")
  case True
  define n where "n = \<lfloor>x\<rfloor>"
  have n: "0 < n" using True by (simp add: n_def)
  have b: "1 \<le> bitlen n" using n bitlen_eq_zero_iff [of n] bitlen_nonneg [of n] by linarith
  have "(2::int) ^ nat (bitlen n - 1) \<le> n" using bitlen_bounds [OF n] by simp
  then have "(of_int ((2::int) ^ nat (bitlen n - 1)) :: rat) \<le> of_int n" by (simp only: of_int_le_iff)
  then have "(2::rat) ^ nat (bitlen n - 1) \<le> of_int n" by simp
  also have "\<dots> \<le> x" by (simp add: n_def)
  finally have "(2::rat) ^ nat (bitlen n - 1) \<le> x" .
  moreover have "(2::rat) powi (bitlen n - 1) = 2 ^ nat (bitlen n - 1)"
    using b by (simp add: power_int_def)
  ultimately show ?thesis using True by (simp add: ilog2_def n_def)
next
  case False
  define m where "m = \<lceil>1 / x\<rceil>"
  define k where "k = bitlen (m - 1)"
  have x1: "1 < 1 / x" using False assms by simp
  then have m: "0 < m - 1" unfolding m_def by linarith
  have "m - 1 < 2 ^ nat k" using bitlen_bounds [OF m] by (simp add: k_def)
  then have "m \<le> 2 ^ nat k" by simp
  then have "(of_int m :: rat) \<le> of_int (2 ^ nat k)" by (simp only: of_int_le_iff)
  then have "(of_int m :: rat) \<le> 2 ^ nat k" by simp
  moreover have "1 / x \<le> of_int m" by (simp add: m_def)
  ultimately have "1 / x \<le> 2 ^ nat k" by linarith
  then have "1 \<le> 2 ^ nat k * x" using assms by (simp add: field_simps)
  then have "1 / 2 ^ nat k \<le> x" by (simp add: field_simps)
  moreover have "(2::rat) powi (- k) = 1 / 2 ^ nat k"
    using bitlen_nonneg [of "m - 1"] by (simp add: power_int_def k_def field_simps)
  ultimately show ?thesis using False by (simp add: ilog2_def m_def k_def)
qed

lemma ilog2_upper: assumes "0 < x" shows "x < 2 powi (ilog2 x + 1)"
proof (cases "1 \<le> x")
  case True
  define n where "n = \<lfloor>x\<rfloor>"
  have n: "0 < n" using True by (simp add: n_def)
  have "n < 2 ^ nat (bitlen n)" using bitlen_bounds [OF n] by simp
  then have "n + 1 \<le> 2 ^ nat (bitlen n)" by simp
  then have "(of_int (n + 1) :: rat) \<le> of_int (2 ^ nat (bitlen n))" by (simp only: of_int_le_iff)
  then have "(of_int n :: rat) + 1 \<le> 2 ^ nat (bitlen n)" by simp
  moreover have "x < of_int n + 1" unfolding n_def by linarith
  ultimately have "x < 2 ^ nat (bitlen n)" by linarith
  moreover have "(2::rat) powi (bitlen n) = 2 ^ nat (bitlen n)"
    using bitlen_nonneg [of n] by (simp add: power_int_def)
  ultimately show ?thesis using True by (simp add: ilog2_def n_def)
next
  case False
  define m where "m = \<lceil>1 / x\<rceil>"
  define k where "k = bitlen (m - 1)"
  have x1: "1 < 1 / x" using False assms by simp
  then have m: "0 < m - 1" unfolding m_def by linarith
  have k1: "1 \<le> k" using m bitlen_eq_zero_iff [of "m - 1"] bitlen_nonneg [of "m - 1"]
    unfolding k_def by linarith
  have "2 ^ nat (k - 1) \<le> m - 1" using bitlen_bounds [OF m] by (simp add: k_def)
  then have "(of_int (2 ^ nat (k - 1)) :: rat) \<le> of_int (m - 1)" by (simp only: of_int_le_iff)
  then have "(2::rat) ^ nat (k - 1) \<le> of_int m - 1" by simp
  moreover have "of_int m - 1 < 1 / x" unfolding m_def by linarith
  ultimately have "(2::rat) ^ nat (k - 1) < 1 / x" by linarith
  then have "2 ^ nat (k - 1) * x < 1" using assms by (simp add: field_simps)
  then have "x < 1 / 2 ^ nat (k - 1)" by (simp add: field_simps)
  moreover have "(2::rat) powi (- k + 1) = 1 / 2 ^ nat (k - 1)"
  proof -
    have "(2::rat) powi (- k + 1) = 2 powi (- (k - 1))" by simp
    also have "\<dots> = 1 / 2 powi (k - 1)" by (rule power_int_minus_divide)
    also have "\<dots> = 1 / 2 ^ nat (k - 1)" using k1 by (simp add: power_int_def)
    finally show ?thesis .
  qed
  ultimately show ?thesis using False by (simp add: ilog2_def m_def k_def)
qed

lemma ilog2_unique:
  assumes "2 powi e \<le> x" "x < 2 powi (e + 1)" shows "ilog2 x = e"
proof -
  have x: "0 < x" using assms(1) pow2_pos [of e] by linarith
  have "(2::rat) powi (ilog2 x) < 2 powi (e + 1)" using ilog2_lower [OF x] assms(2) by linarith
  then have a: "ilog2 x < e + 1" by (rule pow2_less_cancel)
  have "(2::rat) powi e < 2 powi (ilog2 x + 1)" using ilog2_upper [OF x] assms(1) by linarith
  then have b: "e < ilog2 x + 1" by (rule pow2_less_cancel)
  from a b show ?thesis by linarith
qed

lemma ilog2_mono: assumes "0 < x" "x \<le> y" shows "ilog2 x \<le> ilog2 y"
proof -
  have "(2::rat) powi (ilog2 x) < 2 powi (ilog2 y + 1)"
    using ilog2_lower [OF assms(1)] ilog2_upper [of y] assms by linarith
  then have "ilog2 x < ilog2 y + 1" by (rule pow2_less_cancel)
  then show ?thesis by simp
qed

subsection \<open>Rounding to the nearest integer\<close>

lemma rne_of_int: "rne (of_int n) = n"
  by (simp add: rne_def)

lemma rne_lower: "\<lfloor>x\<rfloor> \<le> rne x"
  by (simp add: rne_def Let_def)

lemma rne_upper: "rne x \<le> \<lfloor>x\<rfloor> + 1"
  by (simp add: rne_def Let_def)

lemma rne_mono: assumes "x \<le> y" shows "rne x \<le> rne y"
proof (cases "\<lfloor>x\<rfloor> = \<lfloor>y\<rfloor>")
  case True
  have "x - of_int \<lfloor>x\<rfloor> \<le> y - of_int \<lfloor>y\<rfloor>" using assms True by simp
  then show ?thesis using True by (auto simp add: rne_def Let_def)
next
  case False
  have "\<lfloor>x\<rfloor> \<le> \<lfloor>y\<rfloor>" using assms by (rule floor_mono)
  with False have "\<lfloor>x\<rfloor> + 1 \<le> \<lfloor>y\<rfloor>" by simp
  then show ?thesis using rne_upper [of x] rne_lower [of y] by linarith
qed

lemma rne_ge: "of_int n \<le> x \<Longrightarrow> n \<le> rne x"
  using rne_mono [of "of_int n" x] by (simp add: rne_of_int)

lemma rne_le: "x \<le> of_int n \<Longrightarrow> rne x \<le> n"
  using rne_mono [of x "of_int n"] by (simp add: rne_of_int)

lemma pow2_nat_mult: "(2::rat) ^ p * 2 powi k = 2 powi (int p + k)"
  by (simp add: power_int_add)

lemma fgrid_pos: "0 < fgrid p emin x"
  by (simp add: fgrid_def pow2_pos)

lemma rmag_nonneg: "0 \<le> x \<Longrightarrow> 0 \<le> rmag p emin x"
proof -
  assume "0 \<le> x"
  then have "0 \<le> x / fgrid p emin x" using fgrid_pos [of p emin x] by simp
  then have "0 \<le> rne (x / fgrid p emin x)" using rne_ge [of 0] by simp
  then show ?thesis using fgrid_pos [of p emin x] by (simp add: rmag_def)
qed

text \<open>A positive number below the next power of two rounds to at most that power.\<close>

lemma rmag_le_pow2:
  assumes "0 < x" "0 < p"
  shows "rmag p emin x \<le> 2 powi (max (ilog2 x) emin + 1)"
proof -
  define e where "e = max (ilog2 x) emin"
  define u where "u = fgrid p emin x"
  have u: "u = 2 powi (e - int p + 1)" by (simp add: u_def e_def fgrid_def)
  have upos: "0 < u" by (simp add: u pow2_pos)
  have "x < 2 powi (ilog2 x + 1)" by (rule ilog2_upper [OF assms(1)])
  also have "\<dots> \<le> 2 powi (e + 1)" by (rule power_int_increasing) (simp_all add: e_def)
  finally have "x < 2 powi (e + 1)" .
  moreover have pu: "(2::rat) ^ p * u = 2 powi (e + 1)"
    unfolding u pow2_nat_mult by simp
  ultimately have "x / u < 2 ^ p" using upos by (simp add: field_simps)
  then have "x / u \<le> of_int (2 ^ p)" by simp
  then have "rne (x / u) \<le> 2 ^ p" by (rule rne_le)
  then have "(of_int (rne (x / u)) :: rat) \<le> of_int (2 ^ p)" by (simp only: of_int_le_iff)
  then have "of_int (rne (x / u)) * u \<le> 2 ^ p * u" using upos by simp
  also have "\<dots> = 2 powi (e + 1)" by (rule pu)
  finally show ?thesis by (simp add: rmag_def u_def e_def)
qed

text \<open>A number in the normal range rounds to at least the power of two below it.\<close>

lemma rmag_ge_pow2:
  assumes "0 < x" "0 < p" "emin \<le> ilog2 x"
  shows "2 powi (ilog2 x) \<le> rmag p emin x"
proof -
  define e where "e = ilog2 x"
  define u where "u = fgrid p emin x"
  have u: "u = 2 powi (e - int p + 1)" using assms(3) by (simp add: u_def e_def fgrid_def max_def)
  have upos: "0 < u" by (simp add: u pow2_pos)
  have e: "(2::rat) powi e = 2 ^ (p - 1) * u"
  proof -
    have "int (p - 1) + (e - int p + 1) = e" using assms(2) by simp
    then show ?thesis unfolding u pow2_nat_mult by simp
  qed
  have "2 powi e \<le> x" unfolding e_def by (rule ilog2_lower [OF assms(1)])
  then have "2 ^ (p - 1) \<le> x / u" using upos by (simp add: e field_simps)
  then have "of_int (2 ^ (p - 1)) \<le> x / u" by simp
  then have "2 ^ (p - 1) \<le> rne (x / u)" by (rule rne_ge)
  then have "(of_int (2 ^ (p - 1)) :: rat) \<le> of_int (rne (x / u))" by (simp only: of_int_le_iff)
  then have "2 ^ (p - 1) * u \<le> of_int (rne (x / u)) * u" using upos by simp
  then show ?thesis by (simp add: rmag_def u_def e e_def [symmetric])
qed

lemma rmag_mono:
  assumes "0 < x" "x \<le> y" "0 < p"
  shows "rmag p emin x \<le> rmag p emin y"
proof -
  have ypos: "0 < y" using assms by simp
  have il: "ilog2 x \<le> ilog2 y" by (rule ilog2_mono [OF assms(1,2)])
  show ?thesis
  proof (cases "max (ilog2 x) emin = max (ilog2 y) emin")
    case True
    then have u: "fgrid p emin x = fgrid p emin y" by (simp add: fgrid_def)
    have "x / fgrid p emin y \<le> y / fgrid p emin y"
      using assms(2) fgrid_pos [of p emin y] by (simp add: divide_right_mono)
    then have "rne (x / fgrid p emin y) \<le> rne (y / fgrid p emin y)" by (rule rne_mono)
    then have "(of_int (rne (x / fgrid p emin y)) :: rat) \<le> of_int (rne (y / fgrid p emin y))"
      by (simp only: of_int_le_iff)
    then show ?thesis using fgrid_pos [of p emin y] by (simp add: rmag_def u)
  next
    case False
    with il have lt: "max (ilog2 x) emin < ilog2 y" and ge: "emin \<le> ilog2 y" by (auto simp: max_def split: if_splits)
    have "rmag p emin x \<le> 2 powi (max (ilog2 x) emin + 1)" by (rule rmag_le_pow2 [OF assms(1,3)])
    also have "\<dots> \<le> 2 powi (ilog2 y)"
    proof (rule power_int_increasing)
      show "max (ilog2 x) emin + 1 \<le> ilog2 y" using lt by linarith
    qed simp
    also have "\<dots> \<le> rmag p emin y" by (rule rmag_ge_pow2 [OF ypos assms(3) ge])
    finally show ?thesis .
  qed
qed

text \<open>Numbers of the format are fixed by the rounding.\<close>

lemma rmag_exact:
  assumes "0 < m" "m < 2 ^ p" "emin - int p + 1 \<le> k"
  shows "rmag p emin (of_int m * 2 powi k) = of_int m * 2 powi k"
proof -
  define x :: rat where "x = of_int m * 2 powi k"
  have xpos: "0 < x" using assms(1) by (simp add: x_def pow2_pos)
  define d where "d = max (ilog2 x) emin - int p + 1"
  have "(of_int m :: rat) < of_int (2 ^ p)" using assms(2) by (simp only: of_int_less_iff)
  then have "x < 2 ^ p * 2 powi k" by (simp add: x_def pow2_pos)
  also have "\<dots> = 2 powi (int p + k)" by (simp add: power_int_add)
  finally have "2 powi (ilog2 x) < (2::rat) powi (int p + k)" using ilog2_lower [OF xpos] by linarith
  then have "ilog2 x < int p + k" by (rule pow2_less_cancel)
  with assms(3) have dk: "d \<le> k" by (simp add: d_def)
  have u: "fgrid p emin x = 2 powi d" by (simp add: fgrid_def d_def)
  have "(2::rat) powi k = 2 powi (k - d) * 2 powi d" by (simp flip: power_int_add)
  also have "(2::rat) powi (k - d) = 2 ^ nat (k - d)" using dk by (simp add: power_int_def)
  finally have k: "(2::rat) powi k = of_int (2 ^ nat (k - d)) * 2 powi d" by simp
  have "x / 2 powi d = of_int (m * 2 ^ nat (k - d))" by (simp add: x_def k)
  then have "rne (x / 2 powi d) = m * 2 ^ nat (k - d)" by (simp only: rne_of_int)
  then have "rmag p emin x = of_int (m * 2 ^ nat (k - d)) * 2 powi d" by (simp add: rmag_def u)
  also have "\<dots> = x" by (simp add: x_def k)
  finally show ?thesis by (simp add: x_def)
qed

subsection \<open>Rounding to a format\<close>

lemma fround_zero: "fround p emin emax 0 = Finite 0"
  by (simp add: fround_def)

lemma fround_pos:
  "0 < x \<Longrightarrow> fround p emin emax x =
     (if 2 powi (emax + 1) \<le> rmag p emin x then PlusInf else Finite (rmag p emin x))"
  by (simp add: fround_def Let_def)

lemma fround_neg:
  "x < 0 \<Longrightarrow> fround p emin emax x =
     (if 2 powi (emax + 1) \<le> rmag p emin (- x) then MinusInf
      else if rmag p emin (- x) = 0 then MinusZero
      else Finite (- rmag p emin (- x)))"
  by (simp add: fround_def Let_def)

lemma fle_fround_zero_pos: "0 < x \<Longrightarrow> fle (Finite 0) (fround p emin emax x)"
  using rmag_nonneg [of x p emin] by (simp add: fround_pos)

lemma fle_fround_neg_zero: "x < 0 \<Longrightarrow> fle (fround p emin emax x) (Finite 0)"
  using rmag_nonneg [of "- x" p emin] by (simp add: fround_neg)

lemma fle_trans: "fle a b \<Longrightarrow> fle b c \<Longrightarrow> fle a c"
  by (cases a; cases b; cases c) simp_all

text \<open>The operations on finite operands.\<close>

lemma fsub_Finite: "fsub rnd (Finite x) (Finite y) = rnd (x - y)"
  by (simp add: fsub_def)

lemma fmul_Finite:
  "fmul rnd (Finite x) (Finite y) =
     (if x * y = 0 then fzero ((x < 0) \<noteq> (y < 0)) else rnd (x * y))"
  by (simp add: fmul_def)

lemma fdiv_Finite:
  "fdiv rnd (Finite x) (Finite y) =
     (if y = 0 then (if x = 0 then NaN else finf (x < 0))
      else if x = 0 then fzero (y < 0)
      else rnd (x / y))"
  by (simp add: fdiv_def)

lemma fmul_pos_right:
  "0 < y \<Longrightarrow> rnd 0 = Finite 0 \<Longrightarrow> fmul rnd (Finite x) (Finite y) = rnd (x * y)"
  by (auto simp add: fmul_Finite fzero_def)

lemma fmul_pos_left:
  "0 < x \<Longrightarrow> rnd 0 = Finite 0 \<Longrightarrow> fmul rnd (Finite x) (Finite y) = rnd (x * y)"
  by (auto simp add: fmul_Finite fzero_def)

lemma fdiv_pos:
  "0 < y \<Longrightarrow> rnd 0 = Finite 0 \<Longrightarrow> fdiv rnd (Finite x) (Finite y) = rnd (x / y)"
  by (auto simp add: fdiv_Finite fzero_def)

lemma fround_mono:
  assumes "x \<le> y" "0 < p"
  shows "fle (fround p emin emax x) (fround p emin emax y)"
proof -
  consider "0 < x" | "y < 0" | "x = 0" "y = 0" | "x = 0" "0 < y" | "x < 0" "y = 0" | "x < 0" "0 < y"
    using assms(1) by linarith
  then show ?thesis
  proof cases
    case 1
    then have y: "0 < y" using assms(1) by simp
    have "rmag p emin x \<le> rmag p emin y" by (rule rmag_mono [OF 1 assms])
    then show ?thesis by (simp add: fround_pos 1 y)
  next
    case 2
    then have x: "x < 0" using assms(1) by simp
    have "rmag p emin (- y) \<le> rmag p emin (- x)"
      by (rule rmag_mono) (use 2 assms in simp_all)
    then show ?thesis by (simp add: fround_neg 2 x)
  next
    case 3
    then show ?thesis by (simp add: fround_zero)
  next
    case 4
    then show ?thesis using fle_fround_zero_pos [of y] by (simp add: fround_zero)
  next
    case 5
    then show ?thesis using fle_fround_neg_zero [of x] by (simp add: fround_zero)
  next
    case 6
    then show ?thesis
      using fle_trans [OF fle_fround_neg_zero fle_fround_zero_pos] by blast
  qed
qed

lemma fround_exact:
  assumes "\<bar>m\<bar> < 2 ^ p" "emin - int p + 1 \<le> k" "\<bar>of_int m * 2 powi k\<bar> < (2::rat) powi (emax + 1)"
  shows "fround p emin emax (of_int m * 2 powi k) = Finite (of_int m * 2 powi k)"
proof -
  consider "m = 0" | "0 < m" | "m < 0" by linarith
  then show ?thesis
  proof cases
    case 1
    then show ?thesis by (simp add: fround_zero)
  next
    case 2
    then have pos: "0 < (of_int m :: rat) * 2 powi k" by (simp add: pow2_pos)
    have "rmag p emin (of_int m * 2 powi k) = of_int m * 2 powi k"
      by (rule rmag_exact) (use 2 assms in simp_all)
    then show ?thesis using assms(3) pos by (simp add: fround_pos)
  next
    case 3
    then have neg: "(of_int m :: rat) * 2 powi k < 0" by (simp add: pow2_pos mult_neg_pos)
    have "rmag p emin (of_int (- m) * 2 powi k) = of_int (- m) * 2 powi k"
      by (rule rmag_exact) (use 3 assms in simp_all)
    then have "rmag p emin (- (of_int m * 2 powi k)) = - (of_int m * 2 powi k)" by simp
    then show ?thesis using assms(3) neg 3 by (simp add: fround_neg)
  qed
qed

lemma float4_round_int:
  assumes "\<bar>n\<bar> < 16777216"
  shows "float4_round (of_int n) = Finite (of_int n)"
proof -
  have "(of_int \<bar>n\<bar> :: rat) < of_int 16777216" using assms by (simp only: of_int_less_iff)
  then have "\<bar>of_int n :: rat\<bar> < 2 powi 128" by simp
  then show ?thesis
    using fround_exact [of n 24 "- 126" 0 127] assms by (simp add: float4_round_def)
qed

lemma float4_round_mono: "x \<le> y \<Longrightarrow> fle (float4_round x) (float4_round y)"
  by (simp add: float4_round_def fround_mono)

lemma float4_of_ubyte2_eq: "float4_of_ubyte2 w = Finite (of_nat (unat w))"
proof -
  have "uint w < 2 ^ 16" using unsigned_less [of w, where ?'a = int] by simp
  then have "\<bar>uint w\<bar> < 16777216" by simp
  then have "float4_round (of_int (uint w)) = Finite (of_int (uint w))"
    by (rule float4_round_int)
  moreover have "(of_int (uint w) :: rat) = of_nat (unat w)"
    by (metis of_int_of_nat_eq of_nat_unat)
  ultimately show ?thesis by (simp add: float4_of_ubyte2_def)
qed

lemma float4_of_int_small: "\<bar>n\<bar> < 16777216 \<Longrightarrow> float4_of_int n = Finite (of_int n)"
  by (simp add: float4_of_int_def float4_round_int)

text \<open>A non-negative number rounds to a non-negative number or to the positive infinity.\<close>

lemma fround_nonneg:
  assumes "0 \<le> x"
  shows "fround p emin emax x = PlusInf \<or> (\<exists>r. fround p emin emax x = Finite r \<and> 0 \<le> r)"
proof (cases "x = 0")
  case True
  then show ?thesis by (simp add: fround_zero)
next
  case False
  with assms have "0 < x" by simp
  then show ?thesis using rmag_nonneg [of x p emin] by (simp add: fround_pos)
qed

lemma float4_round_zero: "float4_round 0 = Finite 0"
  by (simp add: float4_round_def fround_zero)

lemma double_round_zero: "double_round 0 = Finite 0"
  by (simp add: double_round_def fround_zero)

lemma float4_round_le:
  assumes "0 \<le> x" "x \<le> y" "float4_round y = Finite s"
  obtains r where "float4_round x = Finite r" "0 \<le> r" "r \<le> s"
proof -
  have "fle (float4_round x) (Finite s)" using float4_round_mono [OF assms(2)] assms(3) by simp
  then show thesis
    using that fround_nonneg [OF assms(1), of 24 "- 126" 127] by (auto simp add: float4_round_def)
qed

lemma float4_round_unit:
  assumes "0 \<le> x" "x \<le> 1"
  obtains r where "float4_round x = Finite r" "0 \<le> r" "r \<le> 1"
proof -
  have "float4_round 1 = Finite 1" using float4_round_int [of 1] by simp
  with assms show thesis using that by (rule float4_round_le)
qed

subsection \<open>Rounding error\<close>

lemma rne_error: "\<bar>of_int (rne t) - t\<bar> \<le> 1 / 2"
proof -
  have "of_int \<lfloor>t\<rfloor> \<le> t" "t < of_int \<lfloor>t\<rfloor> + 1" by linarith+
  then show ?thesis by (auto simp add: rne_def Let_def)
qed

lemma rmag_error: "\<bar>rmag p emin x - x\<bar> \<le> fgrid p emin x / 2"
proof -
  define u where "u = fgrid p emin x"
  have upos: "0 < u" by (simp add: u_def fgrid_pos)
  have "rmag p emin x - x = (of_int (rne (x / u)) - x / u) * u"
    using upos by (simp add: rmag_def u_def field_simps)
  then have "\<bar>rmag p emin x - x\<bar> = \<bar>of_int (rne (x / u)) - x / u\<bar> * u"
    using upos by (simp add: abs_mult)
  also have "\<dots> \<le> (1 / 2) * u"
    using rne_error [of "x / u"] upos by (intro mult_right_mono) simp_all
  finally show ?thesis by (simp add: u_def)
qed

lemma ilog2_le_zero: assumes "0 < x" "x \<le> 1" shows "ilog2 x \<le> 0"
proof -
  have "(2::rat) powi (ilog2 x) < 2 powi 1" using ilog2_lower [OF assms(1)] assms(2) by simp
  then have "ilog2 x < 1" by (rule pow2_less_cancel)
  then show ?thesis by simp
qed

text \<open>On the unit interval a \<open>float4\<close> rounding stays in the interval and moves by at most \<open>2\<^sup>-\<^sup>2\<^sup>4\<close>.\<close>

lemma float4_round_unit_error:
  assumes "0 \<le> x" "x \<le> 1"
  obtains r where "float4_round x = Finite r" "0 \<le> r" "r \<le> 1" "\<bar>r - x\<bar> \<le> 1 / 16777216"
proof (cases "x = 0")
  case True
  then show thesis using that [of 0] by (simp add: float4_round_def fround_zero)
next
  case False
  with assms have xpos: "0 < x" by simp
  obtain r where r: "float4_round x = Finite r" "0 \<le> r" "r \<le> 1"
    using float4_round_unit [OF assms] by blast
  have "r = rmag 24 (- 126) x"
    using r(1) xpos by (simp add: float4_round_def fround_pos split: if_splits)
  then have "\<bar>r - x\<bar> \<le> fgrid 24 (- 126) x / 2" using rmag_error [of 24 "- 126" x] by simp
  moreover have "fgrid 24 (- 126) x \<le> 2 powi (- 23)"
    unfolding fgrid_def using ilog2_le_zero [OF xpos assms(2)]
    by (intro power_int_increasing) simp_all
  moreover have "(2::rat) powi (- 23) = 1 / 8388608" by (simp add: power_int_minus_divide)
  ultimately have "\<bar>r - x\<bar> \<le> 1 / 16777216" by linarith
  with r show thesis using that by blast
qed


section \<open>Properties of getPercent on sensor readings\<close>

lemma unsigned_rat_uint: "(unsigned w :: rat) = of_int (uint w)"
  by simp

lemma unsigned_rat_nonneg: "0 \<le> (unsigned w :: rat)"
  unfolding unsigned_rat_uint by (simp only: of_int_0_le_iff uint_ge_0)

lemma unsigned_rat_bound: "(unsigned (w :: ubyte2) :: rat) < 65536"
proof -
  have "uint w < 65536" using unsigned_less [of w, where ?'a = int] by simp
  then have "(of_int (uint w) :: rat) < of_int 65536" by (simp only: of_int_less_iff)
  then show ?thesis by simp
qed

lemma float4_of_ubyte2_unsigned: "float4_of_ubyte2 w = Finite (unsigned w)"
  by (simp add: float4_of_ubyte2_eq)

lemma fsub_ubyte2:
  "fsub float4_round (float4_of_ubyte2 a) (float4_of_ubyte2 b) = Finite (unsigned a - unsigned b)"
proof -
  have "uint a < 65536" "uint b < 65536"
    using unsigned_less [of a, where ?'a = int] unsigned_less [of b, where ?'a = int] by simp_all
  then have "\<bar>uint a - uint b\<bar> < 16777216"
    using uint_ge_0 [of a] uint_ge_0 [of b] by linarith
  then have "float4_round (of_int (uint a - uint b)) = Finite (of_int (uint a - uint b))"
    by (rule float4_round_int)
  then show ?thesis by (simp add: fsub_Finite float4_of_ubyte2_unsigned)
qed

text \<open>The unclamped fraction of 16-bit readings: one rounded division, or a division by zero.\<close>

lemma getPercent_ubyte2:
  "getPercent (float4_of_ubyte2 v) (float4_of_ubyte2 mn) (float4_of_ubyte2 mx) False =
     (if mx = mn then (if v = mn then NaN else finf (v < mn))
      else if v = mn then fzero (mx < mn)
      else float4_round ((unsigned v - unsigned mn) / (unsigned mx - unsigned mn)))"
  by (simp add: getPercent_def fsub_ubyte2 fdiv_Finite Let_def
      word_eq_iff_unsigned [where ?'a = rat] word_less_iff_unsigned [where ?'a = rat])

lemma getPercent_ubyte2_ascending:
  "mn < mx \<Longrightarrow>
   getPercent (float4_of_ubyte2 v) (float4_of_ubyte2 mn) (float4_of_ubyte2 mx) False =
     float4_round ((unsigned v - unsigned mn) / (unsigned mx - unsigned mn))"
  by (auto simp add: getPercent_ubyte2 fzero_def float4_round_zero)

lemma float4_zero: "float4_of_int 0 = Finite 0"
  by (simp add: float4_of_int_small)

lemma float4_one: "float4_of_int 1 = Finite 1"
  using float4_of_int_small [of 1] by simp

lemma float4_two: "float4_of_int 2 = Finite 2"
  using float4_of_int_small [of 2] by simp

lemma getPercent_clamp:
  "getPercent v mn mx True =
     (let r = getPercent v mn mx False in
      if fgt r (Finite 1) then Finite 1 else if flt r (Finite 0) then Finite 0 else r)"
  by (simp add: getPercent_def Let_def float4_zero float4_one)


lemma getPercent_in_calibration:
  assumes "mn < mx" "mn \<le> v" "v \<le> mx"
  obtains r where
    "getPercent (float4_of_ubyte2 v) (float4_of_ubyte2 mn) (float4_of_ubyte2 mx) False = Finite r"
    "0 \<le> r" "r \<le> 1"
    "\<bar>r - (unsigned v - unsigned mn) / (unsigned mx - unsigned mn)\<bar> \<le> 1 / 16777216"
proof -
  define q :: rat where "q = (unsigned v - unsigned mn) / (unsigned mx - unsigned mn)"
  have d: "(0::rat) < unsigned mx - unsigned mn"
    using assms(1) by (simp add: word_less_iff_unsigned [where ?'a = rat])
  have n: "(0::rat) \<le> unsigned v - unsigned mn" "(unsigned v :: rat) - unsigned mn \<le> unsigned mx - unsigned mn"
    using assms(2,3) by (simp_all add: word_less_eq_iff_unsigned [where ?'a = rat])
  have "0 \<le> q" "q \<le> 1" using d n by (simp_all add: q_def)
  then obtain r where "float4_round q = Finite r" "0 \<le> r" "r \<le> 1" "\<bar>r - q\<bar> \<le> 1 / 16777216"
    by (rule float4_round_unit_error)
  then show thesis using that by (simp add: getPercent_ubyte2_ascending [OF assms(1)] q_def)
qed

lemma unsigned_rat_step: assumes "v < (v' :: ubyte2)" shows "(unsigned v :: rat) + 1 \<le> unsigned v'"
proof -
  have "uint v < uint v'" using assms by (simp add: word_less_def)
  then have "uint v + 1 \<le> uint v'" by simp
  then have "(of_int (uint v + 1) :: rat) \<le> of_int (uint v')" by (simp only: of_int_le_iff)
  then show ?thesis by simp
qed

text \<open>On 16-bit readings the fraction is strictly increasing in the reading.\<close>

lemma getPercent_readings_strict:
  assumes "mn < mx" "mn \<le> v" "v < v'" "v' \<le> mx"
  obtains r r' where
    "getPercent (float4_of_ubyte2 v) (float4_of_ubyte2 mn) (float4_of_ubyte2 mx) True = Finite r"
    "getPercent (float4_of_ubyte2 v') (float4_of_ubyte2 mn) (float4_of_ubyte2 mx) True = Finite r'"
    "0 \<le> r" "r < r'" "r' \<le> 1"
proof -
  define d :: rat where "d = unsigned mx - unsigned mn"
  define q :: rat where "q = (unsigned v - unsigned mn) / d"
  define q' :: rat where "q' = (unsigned v' - unsigned mn) / d"
  have v: "v \<le> mx" and v': "mn \<le> v'" using assms by simp_all
  obtain r where r:
    "getPercent (float4_of_ubyte2 v) (float4_of_ubyte2 mn) (float4_of_ubyte2 mx) False = Finite r"
    "0 \<le> r" "r \<le> 1" "\<bar>r - q\<bar> \<le> 1 / 16777216"
    unfolding q_def d_def by (rule getPercent_in_calibration [OF assms(1,2) v])
  obtain r' where r':
    "getPercent (float4_of_ubyte2 v') (float4_of_ubyte2 mn) (float4_of_ubyte2 mx) False = Finite r'"
    "0 \<le> r'" "r' \<le> 1" "\<bar>r' - q'\<bar> \<le> 1 / 16777216"
    unfolding q'_def d_def by (rule getPercent_in_calibration [OF assms(1) v' assms(4)])
  have dpos: "0 < d" unfolding d_def
    using assms(1) by (simp add: word_less_iff_unsigned [where ?'a = rat])
  have dlt: "d < 65536" unfolding d_def
    using unsigned_rat_bound [of mx] unsigned_rat_nonneg [of mn] by linarith
  have "(unsigned v :: rat) + 1 \<le> unsigned v'" using assms(3) by (rule unsigned_rat_step)
  then have "1 \<le> (unsigned v' - unsigned mn) - (unsigned v - unsigned mn :: rat)" by simp
  then have "1 / d \<le> ((unsigned v' - unsigned mn) - (unsigned v - unsigned mn)) / d"
    using dpos by (simp only: divide_right_mono less_imp_le)
  then have "1 / d \<le> q' - q" by (simp add: q_def q'_def diff_divide_distrib)
  moreover have "1 / 65536 < 1 / d" using dpos dlt by (simp add: field_simps)
  ultimately have "1 / 65536 < q' - q" by linarith
  then have strict: "r < r'" using r(4) r'(4) by linarith
  have "getPercent (float4_of_ubyte2 v) (float4_of_ubyte2 mn) (float4_of_ubyte2 mx) True = Finite r"
    using r by (simp add: getPercent_clamp fgt_def)
  moreover have "getPercent (float4_of_ubyte2 v') (float4_of_ubyte2 mn) (float4_of_ubyte2 mx) True = Finite r'"
    using r' by (simp add: getPercent_clamp fgt_def)
  ultimately show thesis using that r(2) r'(3) strict by blast
qed

subsection \<open>Computing a rounding\<close>

lemma floor_rat_numeral [simp]: "\<lfloor>(numeral a :: rat) / numeral b\<rfloor> = numeral a div numeral b"
  using floor_divide_of_int_eq [of "numeral a" "numeral b", where ?'a = rat] by simp

lemma floor_rat_one_numeral [simp]: "\<lfloor>(1 :: rat) / numeral b\<rfloor> = 1 div numeral b"
  using floor_divide_of_int_eq [of 1 "numeral b", where ?'a = rat] by simp

text \<open>
  Rounding a number whose binary exponent \<open>e\<close> is known, in the normal range of the
  format: the form in which concrete roundings are computed.
\<close>

lemma fround_normal:
  assumes "2 powi e \<le> \<bar>x\<bar>" "\<bar>x\<bar> < 2 powi (e + 1)" "emin \<le> e" "e < emax" "0 < p"
  shows "fround p emin emax x =
           Finite (sgn x * (of_int (rne (\<bar>x\<bar> / 2 powi (e - int p + 1))) * 2 powi (e - int p + 1)))"
proof -
  have pos: "0 < \<bar>x\<bar>" using assms(1) pow2_pos [of e] by linarith
  have e: "ilog2 \<bar>x\<bar> = e" by (rule ilog2_unique [OF assms(1,2)])
  then have g: "fgrid p emin \<bar>x\<bar> = 2 powi (e - int p + 1)"
    using assms(3) by (simp add: fgrid_def max_def)
  have "rmag p emin \<bar>x\<bar> \<le> 2 powi (max (ilog2 \<bar>x\<bar>) emin + 1)"
    by (rule rmag_le_pow2 [OF pos assms(5)])
  also have "\<dots> = 2 powi (e + 1)" using e assms(3) by (simp add: max_def)
  also have "\<dots> < 2 powi (emax + 1)" using assms(4) by (intro power_int_strict_increasing) simp_all
  finally have nov: "\<not> 2 powi (emax + 1) \<le> rmag p emin \<bar>x\<bar>" by simp
  have "2 powi (ilog2 \<bar>x\<bar>) \<le> rmag p emin \<bar>x\<bar>"
    by (rule rmag_ge_pow2 [OF pos assms(5)]) (simp add: e assms(3))
  then have nz: "rmag p emin \<bar>x\<bar> \<noteq> 0" using pow2_pos [of "ilog2 \<bar>x\<bar>"] by linarith
  have "fround p emin emax x = Finite (sgn x * rmag p emin \<bar>x\<bar>)"
    using nov nz pos by (auto simp add: fround_def Let_def sgn_if abs_if split: if_splits)
  then show ?thesis by (simp add: rmag_def g)
qed

subsection \<open>Relative error of a rounding\<close>

lemma pow2_add: "(2::rat) powi (a + b) = 2 powi a * 2 powi b"
  by (simp add: power_int_add)

text \<open>In the normal range of a format, a rounding moves a number by at most \<open>2 powi - p\<close> of it.\<close>

lemma fround_rel_error:
  assumes "2 powi emin \<le> \<bar>x\<bar>" "\<bar>x\<bar> < 2 powi emax" "0 < p"
  obtains y where "fround p emin emax x = Finite y" "\<bar>y - x\<bar> \<le> \<bar>x\<bar> * 2 powi (- int p)"
proof -
  define e where "e = ilog2 \<bar>x\<bar>"
  have pos: "0 < \<bar>x\<bar>" using assms(1) pow2_pos [of emin] by linarith
  have lo: "2 powi e \<le> \<bar>x\<bar>" and hi: "\<bar>x\<bar> < 2 powi (e + 1)"
    unfolding e_def by (rule ilog2_lower [OF pos], rule ilog2_upper [OF pos])
  have "(2::rat) powi emin < 2 powi (e + 1)" using assms(1) hi by linarith
  then have "emin < e + 1" by (rule pow2_less_cancel)
  then have emin: "emin \<le> e" by simp
  have "(2::rat) powi e < 2 powi emax" using lo assms(2) by linarith
  then have emax: "e < emax" by (rule pow2_less_cancel)
  define y where "y = sgn x * rmag p emin \<bar>x\<bar>"
  have g: "fgrid p emin \<bar>x\<bar> = 2 powi (e - int p + 1)"
    using emin by (simp add: fgrid_def e_def max_def)
  have "fround p emin emax x =
          Finite (sgn x * (of_int (rne (\<bar>x\<bar> / 2 powi (e - int p + 1))) * 2 powi (e - int p + 1)))"
    by (rule fround_normal [OF lo hi emin emax assms(3)])
  then have 1: "fround p emin emax x = Finite y" by (simp add: y_def rmag_def g)
  have "sgn x * \<bar>x\<bar> = x" by (simp add: abs_sgn mult.commute)
  then have "y - x = sgn x * (rmag p emin \<bar>x\<bar> - \<bar>x\<bar>)"
    by (simp add: y_def right_diff_distrib)
  then have "\<bar>y - x\<bar> = abs (rmag p emin \<bar>x\<bar> - \<bar>x\<bar>)"
    using pos by (simp add: abs_mult abs_sgn_eq)
  also have "\<dots> \<le> fgrid p emin \<bar>x\<bar> / 2" by (rule rmag_error)
  also have "\<dots> = 2 powi e * 2 powi (- int p)"
  proof -
    have "e - int p + 1 = e + (- int p) + 1" by simp
    then have "(2::rat) powi (e - int p + 1) = 2 powi e * 2 powi (- int p) * 2 powi 1"
      by (simp only: pow2_add)
    then show ?thesis by (simp add: g)
  qed
  also have "\<dots> \<le> \<bar>x\<bar> * 2 powi (- int p)"
    using lo pow2_pos [of "- int p"] by (simp add: mult_right_mono)
  finally have 2: "\<bar>y - x\<bar> \<le> \<bar>x\<bar> * 2 powi (- int p)" .
  from 1 2 show thesis by (rule that)
qed

section \<open>Further properties of the floating-point model\<close>

subsection \<open>The grid of a format\<close>

lemma grid_coarse:
  assumes "g \<le> k"
  shows "\<exists>N. of_int M * (2::rat) powi k = of_int N * 2 powi g"
proof -
  have "(2::rat) powi k = 2 powi (k - g) * 2 powi g" by (simp flip: power_int_add)
  also have "(2::rat) powi (k - g) = of_int (2 ^ nat (k - g))" using assms by (simp add: power_int_def)
  finally have "of_int M * (2::rat) powi k = of_int (M * 2 ^ nat (k - g)) * 2 powi g" by simp
  then show ?thesis by blast
qed

lemma fround_grid:
  assumes "fround p emin emax x = Finite y"
      and "x = 0 \<or> g \<le> max (ilog2 \<bar>x\<bar>) emin - int p + 1"
  shows "\<exists>M. y = of_int M * 2 powi g"
proof (cases "x = 0")
  case True
  then have "y = of_int 0 * 2 powi g" using assms(1) by (simp add: fround_zero)
  then show ?thesis by blast
next
  case False
  define k where "k = max (ilog2 \<bar>x\<bar>) emin - int p + 1"
  have gk: "g \<le> k" using assms(2) False by (simp add: k_def)
  have r: "rmag p emin \<bar>x\<bar> = of_int (rne (\<bar>x\<bar> / 2 powi k)) * 2 powi k"
    by (simp add: rmag_def fgrid_def k_def)
  have "y = rmag p emin \<bar>x\<bar> \<or> y = - rmag p emin \<bar>x\<bar>"
    using assms(1) False by (auto simp add: fround_def Let_def split: if_splits)
  then have "y = of_int (rne (\<bar>x\<bar> / 2 powi k)) * 2 powi k \<or>
             y = of_int (- rne (\<bar>x\<bar> / 2 powi k)) * 2 powi k"
    by (simp add: r)
  then show ?thesis using grid_coarse [OF gk] by metis
qed

lemma float4_value_cases:
  assumes "float4_value a = Some x"
  shows "fnum a = Some x" and "float4_round x = Finite x"
  using assms by (cases a; simp add: float4_round_zero split: if_splits)+

lemma float4_value_grid:
  assumes "float4_value a = Some x"
  shows "\<exists>M. x = of_int M * 2 powi (- 149)"
proof -
  have "fround 24 (- 126) 127 x = Finite x"
    using float4_value_cases(2) [OF assms] by (simp add: float4_round_def)
  then show ?thesis by (rule fround_grid) (simp add: max_def)
qed

subsection \<open>Error of a finite rounding\<close>


lemma fround_finite_error:
  assumes "fround p emin emax x = Finite y" "2 powi emin \<le> \<bar>x\<bar>"
  shows "\<bar>y - x\<bar> \<le> \<bar>x\<bar> * 2 powi (- int p)"
proof -
  define e where "e = ilog2 \<bar>x\<bar>"
  have pos: "0 < \<bar>x\<bar>" using assms(2) pow2_pos [of emin] by linarith
  have lo: "2 powi e \<le> \<bar>x\<bar>" and hi: "\<bar>x\<bar> < 2 powi (e + 1)"
    unfolding e_def by (rule ilog2_lower [OF pos], rule ilog2_upper [OF pos])
  have "(2::rat) powi emin < 2 powi (e + 1)" using assms(2) hi by linarith
  then have "emin < e + 1" by (rule pow2_less_cancel)
  then have g: "fgrid p emin \<bar>x\<bar> = 2 powi (e - int p + 1)"
    by (simp add: fgrid_def e_def max_def)
  have "(y = rmag p emin \<bar>x\<bar> \<and> 0 < x) \<or> (y = - rmag p emin \<bar>x\<bar> \<and> x < 0)"
    using assms(1) pos by (auto simp add: fround_def Let_def split: if_splits)
  then have "\<bar>y - x\<bar> = abs (rmag p emin \<bar>x\<bar> - \<bar>x\<bar>)" by auto
  also have "\<dots> \<le> fgrid p emin \<bar>x\<bar> / 2" by (rule rmag_error)
  also have "\<dots> = 2 powi e * 2 powi (- int p)"
  proof -
    have "e - int p + 1 = e + (- int p) + 1" by simp
    then have "(2::rat) powi (e - int p + 1) = 2 powi e * 2 powi (- int p) * 2 powi 1"
      by (simp only: pow2_add)
    then show ?thesis by (simp add: g)
  qed
  also have "\<dots> \<le> \<bar>x\<bar> * 2 powi (- int p)"
    using lo pow2_pos [of "- int p"] by (simp add: mult_right_mono)
  finally show ?thesis .
qed

lemma float4_round_finite_error:
  assumes "float4_round x = Finite y" "1 / 2 ^ 126 \<le> \<bar>x\<bar>"
  shows "\<bar>y - x\<bar> \<le> \<bar>x\<bar> / 2 ^ 24"
proof -
  have "(2::rat) powi (- 126) \<le> \<bar>x\<bar>" using assms(2) by (simp add: power_int_minus_divide)
  then have "\<bar>y - x\<bar> \<le> \<bar>x\<bar> * 2 powi (- int 24)"
    using assms(1) unfolding float4_round_def by (rule fround_finite_error [rotated])
  then show ?thesis by (simp add: power_int_minus_divide)
qed

lemma float4_round_normal_error:
  assumes "1 / 2 ^ 126 \<le> \<bar>x\<bar>" "\<bar>x\<bar> \<le> 2 ^ 126"
  obtains y where "float4_round x = Finite y" "\<bar>y - x\<bar> \<le> \<bar>x\<bar> / 2 ^ 24"
proof -
  have lo: "(2::rat) powi (- 126) \<le> \<bar>x\<bar>" using assms(1) by (simp add: power_int_minus_divide)
  have "(2::rat) ^ 126 = 2 powi 126" by simp
  also have "\<dots> < 2 powi 127" by (rule power_int_strict_increasing) simp_all
  finally have hi: "\<bar>x\<bar> < 2 powi 127" using assms(2) by linarith
  obtain y where y: "fround 24 (- 126) 127 x = Finite y" "\<bar>y - x\<bar> \<le> \<bar>x\<bar> * 2 powi (- int 24)"
    using fround_rel_error [OF lo hi, of 24] by auto
  have "(2::rat) powi (- int 24) = 1 / 2 ^ 24" by (simp add: power_int_minus_divide)
  with y have "float4_round x = Finite y" "\<bar>y - x\<bar> \<le> \<bar>x\<bar> / 2 ^ 24"
    by (simp_all add: float4_round_def)
  then show thesis by (rule that)
qed

text \<open>The difference of two numbers of the format is rounded with a relative error.\<close>

lemma float4_sub_error:
  assumes "x = of_int M * 2 powi (- 149)" "l = of_int L * 2 powi (- 149)"
      and "float4_round (x - l) = Finite n"
  shows "\<bar>n - (x - l)\<bar> \<le> \<bar>x - l\<bar> / 2 ^ 24"
proof (cases "1 / 2 ^ 126 \<le> \<bar>x - l\<bar>")
  case True
  with assms(3) show ?thesis by (rule float4_round_finite_error)
next
  case False
  have d: "x - l = of_int (M - L) * 2 powi (- 149)" by (simp add: assms(1,2) left_diff_distrib)
  have "\<bar>of_int (M - L) :: rat\<bar> * 2 powi (- 149) < 1 / 2 ^ 126"
    using False by (simp add: d abs_mult)
  then have "\<bar>of_int (M - L) :: rat\<bar> < 2 ^ 23" by (simp add: power_int_minus_divide)
  then have "(of_int \<bar>M - L\<bar> :: rat) < of_int (2 ^ 23)" by simp
  then have m: "\<bar>M - L\<bar> < 2 ^ 23" by (simp only: of_int_less_iff)
  have "\<bar>of_int (M - L) * 2 powi (- 149) :: rat\<bar> < 2 powi (127 + 1)"
    using False by (simp add: d)
  then have "fround 24 (- 126) 127 (of_int (M - L) * 2 powi (- 149)) =
               Finite (of_int (M - L) * 2 powi (- 149))"
    using m by (intro fround_exact) simp_all
  then have "n = x - l" using assms(3) by (simp add: float4_round_def d)
  then show ?thesis by simp
qed

subsection \<open>Operations on data that hold numbers\<close>

lemma fsub_fnum:
  assumes "fnum a = Some x" "fnum b = Some y" "x \<noteq> y"
  shows "fsub rnd a b = rnd (x - y)"
  using assms by (cases a; cases b) (simp_all add: fsub_def)

lemma fsub_fnum_eq:
  assumes "fnum a = Some x" "fnum b = Some x" "rnd 0 = Finite 0"
  shows "fsub rnd a b = Finite 0 \<or> fsub rnd a b = MinusZero"
  using assms by (cases a; cases b) (auto simp add: fsub_def)



lemma fdiv_fnum_pos:
  assumes "fnum a = Some x" "0 < d"
  shows "fdiv rnd a (Finite d) =
           (if x = 0 then (if a = MinusZero then MinusZero else Finite 0) else rnd (x / d))"
  using assms by (cases a) (auto simp add: fdiv_def fzero_def)

lemma abs_diff_chain:
  fixes r q Q :: rat
  assumes "\<bar>q - Q\<bar> \<le> 3 / 2 ^ 24" "\<bar>r - q\<bar> \<le> 1 / 2 ^ 24"
  shows "\<bar>r - Q\<bar> \<le> 1 / 2 ^ 22"
proof -
  have "\<bar>r - Q\<bar> \<le> \<bar>r - q\<bar> + \<bar>q - Q\<bar>" by simp
  also have "\<dots> \<le> 1 / 2 ^ 24 + 3 / 2 ^ 24" using assms by (intro add_mono)
  also have "\<dots> = 1 / 2 ^ 22" by simp
  finally show ?thesis .
qed

lemma quotient_error:
  fixes n d X H :: rat
  assumes "0 \<le> X" "X \<le> H" "0 < H" "0 < d"
      and n: "\<bar>n - X\<bar> \<le> X / 2 ^ 24" and d: "\<bar>d - H\<bar> \<le> H / 2 ^ 24"
  shows "\<bar>n / d - X / H\<bar> \<le> 3 / 2 ^ 24"
proof -
  have "n * H - X * d = (n - X) * H - X * (d - H)" by (simp add: algebra_simps)
  then have "\<bar>n * H - X * d\<bar> \<le> \<bar>n - X\<bar> * H + X * \<bar>d - H\<bar>"
    using assms(1,3) by (simp add: abs_mult order_trans [OF abs_triangle_ineq4])
  also have "\<dots> \<le> (X / 2 ^ 24) * H + X * (H / 2 ^ 24)"
    using n d assms(1,3) by (intro add_mono mult_right_mono mult_left_mono) simp_all
  also have "\<dots> = 2 * X * H / 2 ^ 24" by simp
  also have "\<dots> \<le> 2 * H * H / 2 ^ 24"
    using assms(1-3) by (simp add: mult_right_mono divide_right_mono)
  finally have a: "\<bar>n * H - X * d\<bar> \<le> 2 * (H * H) / 2 ^ 24" by simp
  have "H - H / 2 ^ 24 \<le> d" using d by linarith
  then have "(H - H / 2 ^ 24) * H \<le> d * H" using assms(3) by (simp only: mult_right_mono less_imp_le)
  then have b: "(1 - 1 / 2 ^ 24) * (H * H) \<le> d * H" by (simp add: algebra_simps)
  have c: "0 \<le> d * H" using assms(3,4) by simp
  define s t where "s = d * H" and "t = H * H"
  have "\<bar>n * H - X * d\<bar> \<le> 2 * t / 2 ^ 24" "(1 - 1 / 2 ^ 24) * t \<le> s" "0 \<le> s"
    using a b c by (simp_all add: s_def t_def)
  then have "\<bar>n * H - X * d\<bar> \<le> (3 / 2 ^ 24) * s" by simp
  then have e: "\<bar>n * H - X * d\<bar> \<le> (3 / 2 ^ 24) * (d * H)" by (simp add: s_def)
  have p: "0 < d * H" using assms(3,4) by simp
  have "n / d - X / H = (n * H - X * d) / (d * H)"
    using assms(3,4) by (simp add: field_simps)
  then have "\<bar>n / d - X / H\<bar> = \<bar>n * H - X * d\<bar> / (d * H)"
    using p by (simp only: abs_divide abs_of_pos)
  also have "\<dots> \<le> 3 / 2 ^ 24" using e p by (simp only: pos_divide_le_eq)
  finally show ?thesis .
qed

section \<open>Properties of getPercent on numbers of the format\<close>

lemma float4_round_min_subnormal: "float4_round (2 powi (- 149)) = Finite (2 powi (- 149))"
proof -
  have "(2::rat) powi (- 149) < 2 powi (127 + 1)" by (rule power_int_strict_increasing) simp_all
  then have "fround 24 (- 126) 127 (of_int 1 * 2 powi (- 149)) = Finite (of_int 1 * 2 powi (- 149))"
    by (intro fround_exact) simp_all
  then show ?thesis by (simp add: float4_round_def)
qed

lemma rne_below_half:
  assumes "t < of_int n + 1 / 2"
  shows "rne t \<le> n"
proof (cases "\<lfloor>t\<rfloor> = n")
  case True
  then show ?thesis using assms by (simp add: rne_def Let_def)
next
  case False
  have "\<lfloor>t\<rfloor> \<le> n" using assms by (intro floor_le_iff [THEN iffD2]) linarith
  with False have "\<lfloor>t\<rfloor> + 1 \<le> n" by simp
  then show ?thesis using rne_upper [of t] by linarith
qed

text \<open>
  The numbers below \<open>2\<^sup>1\<^sup>2\<^sup>8 - 2\<^sup>1\<^sup>0\<^sup>3\<close>, the midpoint of the largest finite number of the format
  and \<open>2\<^sup>1\<^sup>2\<^sup>8\<close>, are rounded to finite numbers.
\<close>

lemma float4_round_finite:
  assumes "0 \<le> x" "x < 2 ^ 128 - 2 ^ 103"
  shows "float4_round x \<noteq> PlusInf"
proof (cases "x = 0")
  case True
  then show ?thesis by (simp add: float4_round_zero)
next
  case False
  with assms(1) have pos: "0 < x" by simp
  have "rmag 24 (- 126) x < 2 powi 128"
  proof (cases "x < 2 powi 127")
    case True
    then have "(2::rat) powi (ilog2 x) < 2 powi 127" using ilog2_lower [OF pos] by linarith
    then have "ilog2 x < 127" by (rule pow2_less_cancel)
    then have "max (ilog2 x) (- 126) + 1 \<le> 127" by simp
    then have "(2::rat) powi (max (ilog2 x) (- 126) + 1) \<le> 2 powi 127"
      by (intro power_int_increasing) simp_all
    moreover have "rmag 24 (- 126) x \<le> 2 powi (max (ilog2 x) (- 126) + 1)"
      by (rule rmag_le_pow2 [OF pos]) simp
    moreover have "(2::rat) powi 127 < 2 powi 128" by (rule power_int_strict_increasing) simp_all
    ultimately show ?thesis by linarith
  next
    case False
    then have "2 powi 127 \<le> x" by simp
    moreover have "x < 2 powi (127 + 1)" using assms(2) by simp
    ultimately have "ilog2 x = 127" by (rule ilog2_unique)
    then have g: "fgrid 24 (- 126) x = 2 powi 104" by (simp add: fgrid_def)
    have "x / 2 powi 104 < of_int (2 ^ 24 - 1) + 1 / 2" using assms(2) by (simp add: field_simps)
    then have "rne (x / 2 powi 104) \<le> 2 ^ 24 - 1" by (rule rne_below_half)
    then have "(of_int (rne (x / 2 powi 104)) :: rat) \<le> of_int (2 ^ 24 - 1)"
      by (simp only: of_int_le_iff)
    then have "of_int (rne (x / 2 powi 104)) * (2::rat) powi 104 \<le> of_int (2 ^ 24 - 1) * 2 powi 104"
      by (intro mult_right_mono) simp_all
    also have "\<dots> < 2 powi 128" by simp
    finally show ?thesis by (simp add: rmag_def g)
  qed
  then show ?thesis using pos by (simp add: float4_round_def fround_pos)
qed

text \<open>
  The span of two numbers of the format \<open>l < h\<close> is rounded to a positive number or to the
  positive infinity.
\<close>

lemma float4_span:
  assumes "float4_value mn = Some l" "float4_value mx = Some h" "l < h"
      and "h - l < 2 ^ 128 - 2 ^ 103"
  obtains d where "fsub float4_round mx mn = Finite d" "float4_round (h - l) = Finite d"
    "0 < d" "\<bar>d - (h - l)\<bar> \<le> (h - l) / 2 ^ 24"
proof -
  obtain L where L: "l = of_int L * 2 powi (- 149)" using float4_value_grid [OF assms(1)] by blast
  obtain M where M: "h = of_int M * 2 powi (- 149)" using float4_value_grid [OF assms(2)] by blast
  have s: "fsub float4_round mx mn = float4_round (h - l)"
    using float4_value_cases(1) [OF assms(2)] float4_value_cases(1) [OF assms(1)] assms(3)
    by (intro fsub_fnum) simp_all
  have "(of_int L :: rat) * 2 powi (- 149) < of_int M * 2 powi (- 149)" using assms(3) L M by simp
  then have "(of_int L :: rat) < of_int M" by (simp add: pow2_pos)
  then have "L + 1 \<le> M" by simp
  then have "(of_int (L + 1) :: rat) \<le> of_int M" by (simp only: of_int_le_iff)
  then have "(of_int (L + 1) :: rat) * 2 powi (- 149) \<le> of_int M * 2 powi (- 149)"
    by (simp add: pow2_pos)
  then have "2 powi (- 149) \<le> h - l" by (simp add: L M algebra_simps)
  then have "fle (float4_round (2 powi (- 149))) (float4_round (h - l))"
    by (rule float4_round_mono)
  then have low: "fle (Finite (2 powi (- 149))) (float4_round (h - l))"
    by (simp only: float4_round_min_subnormal)
  have nn: "0 \<le> h - l" using assms(3) by simp
  then have "float4_round (h - l) \<noteq> PlusInf" using assms(4) by (rule float4_round_finite)
  then obtain d where d: "float4_round (h - l) = Finite d"
    using fround_nonneg [OF nn, of 24 "- 126" 127] by (auto simp add: float4_round_def)
  have "2 powi (- 149) \<le> d" using low d by simp
  then have "0 < d" using pow2_pos [of "- 149"] by linarith
  moreover have "\<bar>d - (h - l)\<bar> \<le> (h - l) / 2 ^ 24"
    using float4_sub_error [OF M L d] assms(3) by simp
  ultimately show thesis using that s d by simp
qed

lemma getPercent_float4:
  assumes v: "float4_value v = Some x" and mn: "float4_value mn = Some l"
      and d: "float4_round (h - l) = Finite d" "fsub float4_round mx mn = Finite d" "0 < d"
      and x: "l \<le> x" "x \<le> h"
  obtains n r where "float4_round (x - l) = Finite n" "0 \<le> n" "n \<le> d"
    "\<bar>n - (x - l)\<bar> \<le> (x - l) / 2 ^ 24"
    "float4_round (n / d) = Finite r" "0 \<le> r" "r \<le> 1" "\<bar>r - n / d\<bar> \<le> 1 / 2 ^ 24"
    "fnum (getPercent v mn mx True) = Some r"
    "getPercent v mn mx True = Finite r \<or> getPercent v mn mx True = MinusZero"
    "n \<noteq> 0 \<Longrightarrow> getPercent v mn mx True = Finite r"
proof -
  obtain L where L: "l = of_int L * 2 powi (- 149)" using float4_value_grid [OF mn] by blast
  obtain M where M: "x = of_int M * 2 powi (- 149)" using float4_value_grid [OF v] by blast
  have "0 \<le> x - l" "x - l \<le> h - l" using x by simp_all
  then obtain n where n: "float4_round (x - l) = Finite n" "0 \<le> n" "n \<le> d"
    using d(1) by (rule float4_round_le)
  have ne: "\<bar>n - (x - l)\<bar> \<le> (x - l) / 2 ^ 24"
    using float4_sub_error [OF M L n(1)] x(1) by simp
  have "0 \<le> n / d" "n / d \<le> 1" using n(2,3) d(3) by simp_all
  then obtain r where r: "float4_round (n / d) = Finite r" "0 \<le> r" "r \<le> 1"
    "\<bar>r - n / d\<bar> \<le> 1 / 16777216"
    by (rule float4_round_unit_error)
  have r0: "r = 0" if "n = 0" using that r(1) by (simp add: float4_round_zero)
  define N where "N = fsub float4_round v mn"
  have N: "N = Finite n \<or> (N = MinusZero \<and> n = 0)"
  proof (cases "x = l")
    case True
    then have "fnum v = Some l" using float4_value_cases(1) [OF v] by simp
    then have "N = Finite 0 \<or> N = MinusZero"
      unfolding N_def using float4_value_cases(1) [OF mn] float4_round_zero by (rule fsub_fnum_eq)
    moreover have "n = 0" using n(1) True by (simp add: float4_round_zero)
    ultimately show ?thesis by auto
  next
    case False
    have "N = float4_round (x - l)"
      unfolding N_def
      using float4_value_cases(1) [OF v] float4_value_cases(1) [OF mn] False by (rule fsub_fnum)
    then show ?thesis by (simp add: n(1))
  qed
  define Q where "Q = fdiv float4_round N (Finite d)"
  have Q: "Q = Finite r \<or> (Q = MinusZero \<and> n = 0)"
  proof (cases "N = Finite n")
    case True
    have "Q = (if n = 0 then Finite 0 else float4_round (n / d))"
      unfolding Q_def True using fdiv_fnum_pos [of "Finite n" n d float4_round] d(3) by simp
    then show ?thesis using r(1) r0 by (simp split: if_splits)
  next
    case False
    with N have m: "N = MinusZero" "n = 0" by simp_all
    have "Q = MinusZero"
      unfolding Q_def m(1) using fdiv_fnum_pos [of MinusZero 0 d float4_round] d(3) by simp
    then show ?thesis using m(2) by simp
  qed
  have Qn: "Q = Finite r" if "n \<noteq> 0" using Q that by simp
  have g: "getPercent v mn mx True = Q"
    using Q r(2,3) by (auto simp add: getPercent_def Let_def Q_def N_def d(2) float4_zero float4_one fgt_def)
  have "fnum (getPercent v mn mx True) = Some r" using Q r0 by (auto simp add: g)
  moreover have "getPercent v mn mx True = Finite r \<or> getPercent v mn mx True = MinusZero"
    using Q by (auto simp add: g)
  moreover have "n \<noteq> 0 \<Longrightarrow> getPercent v mn mx True = Finite r" using Qn by (simp add: g)
  ultimately show thesis using that n ne r by simp
qed

lemma float4_round_5_2: "float4_round (5 / 2) = Finite (5 / 2)"
  using fround_normal [of 1 "5 / 2" "- 126" 127 24]
  by (simp add: float4_round_def rne_def power_int_minus_divide)

lemma float4_round_9_2: "float4_round (9 / 2) = Finite (9 / 2)"
  using fround_normal [of 2 "9 / 2" "- 126" 127 24]
  by (simp add: float4_round_def rne_def power_int_minus_divide)

lemma float4_round_max:
  "float4_round float4_max = Finite float4_max"
  "float4_round (- float4_max) = Finite (- float4_max)"
  "float4_round (2 * float4_max) = PlusInf"
proof -
  have m: "float4_max = of_int (2 ^ 24 - 1) * 2 powi 104" by (simp add: float4_max_def)
  have "fround 24 (- 126) 127 (of_int (2 ^ 24 - 1) * 2 powi 104) =
          Finite (of_int (2 ^ 24 - 1) * 2 powi 104)"
    by (rule fround_exact) simp_all
  then show "float4_round float4_max = Finite float4_max" by (simp only: float4_round_def m)
  have "fround 24 (- 126) 127 (of_int (- (2 ^ 24 - 1)) * 2 powi 104) =
          Finite (of_int (- (2 ^ 24 - 1)) * 2 powi 104)"
    by (rule fround_exact) simp_all
  then show "float4_round (- float4_max) = Finite (- float4_max)"
    by (simp add: float4_round_def m)
  have e: "2 * float4_max = of_int (2 ^ 24 - 1) * 2 powi 105" by (simp add: float4_max_def)
  have "rmag 24 (- 126) (2 * float4_max) = 2 * float4_max"
    unfolding e by (rule rmag_exact) simp_all
  then show "float4_round (2 * float4_max) = PlusInf"
    by (simp add: float4_round_def fround_pos float4_max_def)
qed

text \<open>
  The sign of a zero span decides the sign of the infinity: with \<open>min\<close> the positive and
  \<open>max\<close> the negative zero, the span \<open>max - min\<close> is the negative zero.
\<close>

lemma getPercent_negative_zero_span:
  "getPercent (Finite 1) (Finite 0) MinusZero False = MinusInf"
  "getPercent (Finite 1) MinusZero (Finite 0) False = PlusInf"
  by (simp_all add: getPercent_def fsub_def fdiv_def finf_def float4_round_int [of 1, simplified]
      float4_round_zero)

section \<open>Properties of GetThrottlePosition\<close>

lemma TPSErrorState_zero_iff:
  "TPSErrorState g = 0 \<longleftrightarrow>
     \<not> outOfSpec (Sensor_TPS0 g) \<and> \<not> outOfSpec (Sensor_TPS1 g) \<and> \<not> TPSDiscrepancy g \<and>
     isCalibrated (Sensor_TPS0 g) \<and> isCalibrated (Sensor_TPS1 g)"
  by (simp add: TPSErrorState_def Let_def)

lemma GetThrottlePosition_cases:
  "GetThrottlePosition g =
     (if TPSErrorState g = 0
      then fdiv float4_round
             (fadd float4_round (TPS0PedalPercent g) (TPS1PedalPercent g)) (Finite 2)
      else Finite 0)"
  by (simp add: GetThrottlePosition_def float4_zero float4_two word_gt_0)

lemma example_pair_percent:
  "TPS0PedalPercent (example_pair smin smax lo hi v0 v1) =
     getPercent (float4_of_ubyte2 v0) (float4_of_ubyte2 lo) (float4_of_ubyte2 hi) False"
  "TPS1PedalPercent (example_pair smin smax lo hi v0 v1) =
     getPercent (float4_of_ubyte2 v1) (float4_of_ubyte2 lo) (float4_of_ubyte2 hi) False"
  by (simp_all add: TPS0PedalPercent_def TPS1PedalPercent_def example_pair_def)

lemma example_pair_fields:
  "specMin (Sensor_TPS0 (example_pair smin smax lo hi v0 v1)) = smin"
  "specMax (Sensor_TPS0 (example_pair smin smax lo hi v0 v1)) = smax"
  "specMin (Sensor_TPS1 (example_pair smin smax lo hi v0 v1)) = smin"
  "specMax (Sensor_TPS1 (example_pair smin smax lo hi v0 v1)) = smax"
  "calibMin (Sensor_TPS0 (example_pair smin smax lo hi v0 v1)) = lo"
  "calibMax (Sensor_TPS0 (example_pair smin smax lo hi v0 v1)) = hi"
  "calibMin (Sensor_TPS1 (example_pair smin smax lo hi v0 v1)) = lo"
  "calibMax (Sensor_TPS1 (example_pair smin smax lo hi v0 v1)) = hi"
  "sensorValue (Sensor_TPS0 (example_pair smin smax lo hi v0 v1)) = v0"
  "sensorValue (Sensor_TPS1 (example_pair smin smax lo hi v0 v1)) = v1"
  "isCalibrated (Sensor_TPS0 (example_pair smin smax lo hi v0 v1))"
  "isCalibrated (Sensor_TPS1 (example_pair smin smax lo hi v0 v1))"
  by (simp_all add: example_pair_def)

text \<open>Concrete roundings used by the instances below.\<close>

lemma double_tenth: "double_round (1 / 10) = Finite (3602879701896397 / 36028797018963968)"
  using fround_normal [of "- 4" "1 / 10" "- 1022" 1023 53]
  by (simp add: double_round_def rne_def power_int_minus_divide)

lemma float4_round_055: "float4_round (11 / 20) = Finite (9227469 / 16777216)"
  using fround_normal [of "- 1" "11 / 20" "- 126" 127 24]
  by (simp add: float4_round_def rne_def power_int_minus_divide)

lemma float4_round_040: "float4_round (2 / 5) = Finite (13421773 / 33554432)"
  using fround_normal [of "- 2" "2 / 5" "- 126" 127 24]
  by (simp add: float4_round_def rne_def power_int_minus_divide)

lemma float4_round_052: "float4_round (13 / 25) = Finite (1090519 / 2097152)"
  using fround_normal [of "- 1" "13 / 25" "- 126" 127 24]
  by (simp add: float4_round_def rne_def power_int_minus_divide)

lemma float4_round_048: "float4_round (12 / 25) = Finite (16106127 / 33554432)"
  using fround_normal [of "- 2" "12 / 25" "- 126" 127 24]
  by (simp add: float4_round_def rne_def power_int_minus_divide)

lemma float4_round_diff_055_040:
  "float4_round (- (5033165 / 33554432)) = Finite (- (5033165 / 33554432))"
  using fround_normal [of "- 3" "- (5033165 / 33554432)" "- 126" 127 24]
  by (simp add: float4_round_def rne_def power_int_minus_divide)

lemma float4_round_diff_052_048:
  "float4_round (- (1342177 / 33554432)) = Finite (- (1342177 / 33554432))"
  using fround_normal [of "- 5" "- (1342177 / 33554432)" "- 126" 127 24]
  by (simp add: float4_round_def rne_def power_int_minus_divide)


lemma float4_round_half: "float4_round (1 / 2) = Finite (1 / 2)"
  using fround_normal [of "- 1" "1 / 2" "- 126" 127 24]
  by (simp add: float4_round_def rne_def power_int_minus_divide)

lemma float4_round_1_4: "float4_round (1 / 4) = Finite (1 / 4)"
  using fround_normal [of "- 2" "1 / 4" "- 126" 127 24]
  by (simp add: float4_round_def rne_def power_int_minus_divide)

lemma getPercent_voltages:
  "getPercent (Finite (3 / 2)) (Finite (1 / 2)) (Finite (9 / 2)) True = Finite (1 / 4)"
  "getPercent (Finite (5 / 2)) (Finite (1 / 2)) (Finite (9 / 2)) True = Finite (1 / 2)"
  using float4_round_int [of 1] float4_round_int [of 2] float4_round_int [of 4]
  by (simp_all add: getPercent_def fsub_Finite fdiv_Finite float4_round_1_4 float4_round_half
      float4_zero float4_one fgt_def)

lemma example_55_40:
  "TPS0PedalPercent (example_pair 0 100 0 100 55 40) = Finite (9227469 / 16777216)"
  "TPS1PedalPercent (example_pair 0 100 0 100 55 40) = Finite (13421773 / 33554432)"
  by (simp_all add: example_pair_percent getPercent_ubyte2 float4_round_055 float4_round_040)

lemma example_52_48:
  "TPS0PedalPercent (example_pair 0 100 0 100 52 48) = Finite (1090519 / 2097152)"
  "TPS1PedalPercent (example_pair 0 100 0 100 52 48) = Finite (16106127 / 33554432)"
  by (simp_all add: example_pair_percent getPercent_ubyte2 float4_round_052 float4_round_048)

lemma Sensor_TPS1_init_spec: "specMin Sensor_TPS1_init = 4 \<and> specMax Sensor_TPS1_init = 0"
  by (simp add: Sensor_TPS1_init_def ubyte2_of_floating_def)

lemma always_outOfSpec:
  assumes "specMin s = 4" "specMax s = 0"
  shows "outOfSpec s"
proof (cases "sensorValue s = 0")
  case True
  then show ?thesis using assms by (simp add: outOfSpec_def)
next
  case False
  then have "0 < sensorValue s" by (simp add: word_gt_0)
  then show ?thesis using assms by (simp add: outOfSpec_def)
qed

subsection \<open>The mean of two fractions in the unit interval\<close>

lemma float4_round_between:
  assumes "0 \<le> x" "x \<le> of_int b" "\<bar>b\<bar> < 16777216"
  obtains r where "float4_round x = Finite r" "0 \<le> r" "r \<le> of_int b"
  using assms(1,2) float4_round_int [OF assms(3)] by (rule float4_round_le)

lemma float4_mean_unit:
  assumes "0 \<le> r0" "r0 \<le> 1" "0 \<le> r1" "r1 \<le> 1"
  obtains r where
    "fdiv float4_round (fadd float4_round (Finite r0) (Finite r1)) (Finite 2) = Finite r"
    "0 \<le> r" "r \<le> 1"
proof -
  have "0 \<le> r0 + r1" "r0 + r1 \<le> of_int 2" using assms by simp_all
  then obtain s where s: "float4_round (r0 + r1) = Finite s" "0 \<le> s" "s \<le> of_int 2"
    by (rule float4_round_between) simp_all
  then have "0 \<le> s / 2" "s / 2 \<le> 1" by simp_all
  then obtain r where "float4_round (s / 2) = Finite r" "0 \<le> r" "r \<le> 1"
    by (rule float4_round_unit)
  then show thesis using that s(1) by (simp add: fdiv_pos float4_round_zero)
qed

lemma float4_round_3_2: "float4_round (3 / 2) = Finite (3 / 2)"
  using fround_normal [of 0 "3 / 2" "- 126" 127 24]
  by (simp add: float4_round_def rne_def power_int_minus_divide)

subsection \<open>The fractions of the two sensors\<close>

text \<open>The quotient of two differences of 16-bit readings is zero or of a moderate magnitude.\<close>

lemma ubyte2_quotient:
  fixes v mn mx :: ubyte2
  defines "q \<equiv> ((unsigned v :: rat) - unsigned mn) / (unsigned mx - unsigned mn)"
  assumes "mx \<noteq> mn" "v \<noteq> mn"
  shows "1 / 2 ^ 16 \<le> \<bar>q\<bar>" "\<bar>q\<bar> \<le> 2 ^ 16"
proof -
  define n where "n = uint v - uint mn"
  define d where "d = uint mx - uint mn"
  have b: "0 \<le> uint v" "uint v < 65536" "0 \<le> uint mn" "uint mn < 65536" "0 \<le> uint mx" "uint mx < 65536"
    using unsigned_less [of v, where ?'a = int] unsigned_less [of mn, where ?'a = int]
      unsigned_less [of mx, where ?'a = int] by simp_all
  have "uint v \<noteq> uint mn" "uint mx \<noteq> uint mn" using assms(2,3) by (simp_all add: word_uint_eq_iff)
  then have n: "1 \<le> \<bar>n\<bar>" "\<bar>n\<bar> \<le> 65536" and d: "1 \<le> \<bar>d\<bar>" "\<bar>d\<bar> \<le> 65536"
    using b unfolding n_def d_def by linarith+
  have nr: "(1::rat) \<le> \<bar>of_int n\<bar>" "\<bar>of_int n :: rat\<bar> \<le> 65536"
    using n by (simp_all flip: of_int_abs add: of_int_le_numeral_iff)
  have dr: "(1::rat) \<le> \<bar>of_int d\<bar>" "\<bar>of_int d :: rat\<bar> \<le> 65536"
    using d by (simp_all flip: of_int_abs add: of_int_le_numeral_iff)
  have q: "\<bar>q\<bar> = \<bar>of_int n\<bar> / \<bar>of_int d\<bar>" by (simp add: q_def n_def d_def)
  have "1 / 65536 \<le> 1 / \<bar>of_int d :: rat\<bar>" using dr by (simp add: field_simps)
  also have "\<dots> \<le> \<bar>of_int n\<bar> / \<bar>of_int d\<bar>" using nr(1) dr(1) by (simp add: divide_right_mono)
  finally show "1 / 2 ^ 16 \<le> \<bar>q\<bar>" by (simp add: q)
  have "\<bar>of_int n :: rat\<bar> / \<bar>of_int d\<bar> \<le> \<bar>of_int n\<bar> / 1"
    using dr(1) by (intro divide_left_mono) simp_all
  also have "\<dots> \<le> 65536" using nr(2) by simp
  finally show "\<bar>q\<bar> \<le> 2 ^ 16" by (simp add: q)
qed


text \<open>
  Without the clamp, a reading beyond the calibrated range gives a fraction beyond the
  unit interval.
\<close>

lemma float4_round_above_one: "float4_round (65537 / 65536) = Finite (65537 / 65536)"
  using fround_normal [of 0 "65537 / 65536" "- 126" 127 24]
  by (simp add: float4_round_def rne_def power_int_minus_divide)

lemma float4_round_below_zero: "float4_round (- (1 / 65536)) = Finite (- (1 / 65536))"
  using fround_normal [of "- 16" "- (1 / 65536)" "- 126" 127 24]
  by (simp add: float4_round_def rne_def power_int_minus_divide)

lemma getPercent_over_travel:
  assumes "mn < mx" "mx < v"
  obtains a where
    "getPercent (float4_of_ubyte2 v) (float4_of_ubyte2 mn) (float4_of_ubyte2 mx) False = Finite a"
    "1 < a"
proof -
  define d :: rat where "d = unsigned mx - unsigned mn"
  define q :: rat where "q = (unsigned v - unsigned mn) / d"
  have ne: "mx \<noteq> mn" "v \<noteq> mn" using assms by auto
  have dpos: "0 < d" unfolding d_def
    using assms(1) by (simp add: word_less_iff_unsigned [where ?'a = rat])
  have dlt: "d < 65536" unfolding d_def
    using unsigned_rat_bound [of mx] unsigned_rat_nonneg [of mn] by linarith
  have "(unsigned mx :: rat) + 1 \<le> unsigned v" using assms(2) by (rule unsigned_rat_step)
  then have "d + 1 \<le> unsigned v - unsigned mn" by (simp add: d_def)
  then have "(d + 1) / d \<le> q" using dpos by (simp add: q_def divide_right_mono)
  moreover have "(d + 1) / d = 1 + 1 / d" using dpos by (simp add: field_simps)
  moreover have "1 / 65536 < 1 / d" using dpos dlt by (simp add: field_simps)
  ultimately have "65537 / 65536 \<le> q" by simp
  then have "fle (float4_round (65537 / 65536)) (float4_round q)" by (rule float4_round_mono)
  then have low: "fle (Finite (65537 / 65536)) (float4_round q)"
    by (simp only: float4_round_above_one)
  have "1 / 2 ^ 16 \<le> \<bar>q\<bar>" "\<bar>q\<bar> \<le> 2 ^ 16"
    unfolding q_def d_def by (rule ubyte2_quotient [OF ne])+
  then have "1 / 2 ^ 126 \<le> \<bar>q\<bar>" "\<bar>q\<bar> \<le> 2 ^ 126" by simp_all
  then obtain a where a: "float4_round q = Finite a" by (rule float4_round_normal_error)
  then have "1 < a" using low by simp
  moreover have
    "getPercent (float4_of_ubyte2 v) (float4_of_ubyte2 mn) (float4_of_ubyte2 mx) False = Finite a"
    using a by (simp add: getPercent_ubyte2_ascending [OF assms(1)] q_def d_def)
  ultimately show thesis using that by blast
qed

lemma getPercent_under_travel:
  assumes "mn < mx" "v < mn"
  obtains a where
    "getPercent (float4_of_ubyte2 v) (float4_of_ubyte2 mn) (float4_of_ubyte2 mx) False = Finite a"
    "a < 0"
proof -
  define d :: rat where "d = unsigned mx - unsigned mn"
  define q :: rat where "q = (unsigned v - unsigned mn) / d"
  have ne: "mx \<noteq> mn" "v \<noteq> mn" using assms by auto
  have dpos: "0 < d" unfolding d_def
    using assms(1) by (simp add: word_less_iff_unsigned [where ?'a = rat])
  have dlt: "d < 65536" unfolding d_def
    using unsigned_rat_bound [of mx] unsigned_rat_nonneg [of mn] by linarith
  have "(unsigned v :: rat) + 1 \<le> unsigned mn" using assms(2) by (rule unsigned_rat_step)
  then have "unsigned v - unsigned mn \<le> (- 1 :: rat)" by simp
  then have "(unsigned v - unsigned mn) / d \<le> (- 1) / d"
    using dpos by (simp only: divide_right_mono less_imp_le)
  then have "q \<le> - (1 / d)" by (simp add: q_def)
  moreover have "1 / 65536 < 1 / d" using dpos dlt by (simp add: field_simps)
  ultimately have "q \<le> - (1 / 65536)" by linarith
  then have "fle (float4_round q) (float4_round (- (1 / 65536)))" by (rule float4_round_mono)
  then have up: "fle (float4_round q) (Finite (- (1 / 65536)))"
    by (simp only: float4_round_below_zero)
  have "1 / 2 ^ 16 \<le> \<bar>q\<bar>" "\<bar>q\<bar> \<le> 2 ^ 16"
    unfolding q_def d_def by (rule ubyte2_quotient [OF ne])+
  then have "1 / 2 ^ 126 \<le> \<bar>q\<bar>" "\<bar>q\<bar> \<le> 2 ^ 126" by simp_all
  then obtain a where a: "float4_round q = Finite a" by (rule float4_round_normal_error)
  then have "a < 0" using up by simp
  moreover have
    "getPercent (float4_of_ubyte2 v) (float4_of_ubyte2 mn) (float4_of_ubyte2 mx) False = Finite a"
    using a by (simp add: getPercent_ubyte2_ascending [OF assms(1)] q_def d_def)
  ultimately show thesis using that by blast
qed

subsection \<open>The mean of two fractions\<close>


subsection \<open>The implausibility test\<close>













section \<open>Properties of calibrateTPS\<close>

lemma recordMinMax_fields:
  "calibMin (recordMinMax s) = min (sensorValue s) (calibMin s)"
  "calibMax (recordMinMax s) = max (sensorValue s) (calibMax s)"
  "specMin (recordMinMax s) = specMin s"
  "specMax (recordMinMax s) = specMax s"
  "isCalibrated (recordMinMax s) = isCalibrated s"
  "sensorValue (recordMinMax s) = sensorValue s"
  by (auto simp add: recordMinMax_def Let_def min_def max_def)

text \<open>One channel over the samples of a run.\<close>

lemma fold_recordMinMax:
  "calibMin (fold (\<lambda>v s. recordMinMax (s\<lparr>sensorValue := v\<rparr>)) vs s) = fold min vs (calibMin s) \<and>
   calibMax (fold (\<lambda>v s. recordMinMax (s\<lparr>sensorValue := v\<rparr>)) vs s) = fold max vs (calibMax s) \<and>
   specMin (fold (\<lambda>v s. recordMinMax (s\<lparr>sensorValue := v\<rparr>)) vs s) = specMin s \<and>
   specMax (fold (\<lambda>v s. recordMinMax (s\<lparr>sensorValue := v\<rparr>)) vs s) = specMax s \<and>
   isCalibrated (fold (\<lambda>v s. recordMinMax (s\<lparr>sensorValue := v\<rparr>)) vs s) = isCalibrated s"
  by (induction vs arbitrary: s) (simp_all add: recordMinMax_fields)

lemma calibrateTPS_step_TPS0:
  "Sensor_TPS0 (calibrateTPS_body (sample_sensors ob g)) =
     recordMinMax ((Sensor_TPS0 g)\<lparr>sensorValue := TPS0_sample ob\<rparr>)"
  by (simp add: calibrateTPS_body_def sample_sensors_def)

lemma calibrateTPS_step_TPS1:
  "Sensor_TPS1 (calibrateTPS_body (sample_sensors ob g)) =
     recordMinMax ((Sensor_TPS1 g)\<lparr>sensorValue := TPS1_sample ob\<rparr>)"
  by (simp add: calibrateTPS_body_def sample_sensors_def)

lemma fold_step_TPS0:
  "Sensor_TPS0 (fold (\<lambda>ob g. calibrateTPS_body (sample_sensors ob g)) obs g) =
     fold (\<lambda>v s. recordMinMax (s\<lparr>sensorValue := v\<rparr>)) (map TPS0_sample obs) (Sensor_TPS0 g)"
  by (induction obs arbitrary: g) (simp_all add: calibrateTPS_step_TPS0)

lemma fold_step_TPS1:
  "Sensor_TPS1 (fold (\<lambda>ob g. calibrateTPS_body (sample_sensors ob g)) obs g) =
     fold (\<lambda>v s. recordMinMax (s\<lparr>sensorValue := v\<rparr>)) (map TPS1_sample obs) (Sensor_TPS1 g)"
  by (induction obs arbitrary: g) (simp_all add: calibrateTPS_step_TPS1)

text \<open>The loop runs through the observations made before the time limit and then returns.\<close>

lemma calibrateTPS_loop_run:
  assumes "\<forall>ob \<in> set obs. elapsedUS ob < limit" "\<not> elapsedUS final < limit"
  shows "calibrateTPS_loop limit (obs @ final # rest) g =
           Some (fold (\<lambda>ob g. calibrateTPS_body (sample_sensors ob g)) obs g)"
  using assms by (induction obs arbitrary: g) simp_all

lemma calibrateTPS_run:
  assumes "\<forall>ob \<in> set obs. elapsedUS ob < ucast secs * 1000 * 1000"
      and "\<not> elapsedUS final < ucast secs * 1000 * 1000"
  shows "calibrateTPS secs (obs @ final # rest) g =
           Some (calibrateTPS_commit
                  (fold (\<lambda>ob g. calibrateTPS_body (sample_sensors ob g)) obs (calibrateTPS_reset g)))"
  unfolding calibrateTPS_def by (simp only: calibrateTPS_loop_run [OF assms] option.case)

lemma fold_min_Min: "fold min vs (a :: ubyte2) = Min (set (a # vs))"
  by (simp only: Min.set_eq_fold)

lemma fold_max_Max: "fold max vs (a :: ubyte2) = Max (set (a # vs))"
  by (simp only: Max.set_eq_fold)

lemma limit_one_second: "(ucast (1 :: ubyte1) :: ubyte4) * 1000 * 1000 = 1000000"
  by simp

lemma calibrateTPS_loop_spec:
  "calibrateTPS_loop limit obs g = Some g' \<Longrightarrow>
     specMin (Sensor_TPS0 g') = specMin (Sensor_TPS0 g) \<and>
     specMax (Sensor_TPS0 g') = specMax (Sensor_TPS0 g) \<and>
     specMin (Sensor_TPS1 g') = specMin (Sensor_TPS1 g) \<and>
     specMax (Sensor_TPS1 g') = specMax (Sensor_TPS1 g)"
proof (induction obs arbitrary: g)
  case Nil
  then show ?case by simp
next
  case (Cons ob obs)
  show ?case
  proof (cases "elapsedUS ob < limit")
    case True
    with Cons.prems have "calibrateTPS_loop limit obs (calibrateTPS_body (sample_sensors ob g)) = Some g'"
      by simp
    from Cons.IH [OF this] show ?thesis
      by (simp add: calibrateTPS_step_TPS0 calibrateTPS_step_TPS1 recordMinMax_fields)
  next
    case False
    with Cons.prems show ?thesis by simp
  qed
qed

lemma Sensor_init_specs:
  "specMin Sensor_TPS0_init = 0" "specMax Sensor_TPS0_init = 4"
  "specMin Sensor_BPS0_init = 0" "specMax Sensor_BPS0_init = 4"
  "specMin Sensor_WSS_FL_init = 0" "specMax Sensor_WSS_FL_init = 0"
  "specMin Sensor_WSS_FR_init = 0" "specMax Sensor_WSS_FR_init = 0"
  "specMin Sensor_WSS_RL_init = 0" "specMax Sensor_WSS_RL_init = 0"
  "specMin Sensor_WSS_RR_init = 0" "specMax Sensor_WSS_RR_init = 0"
  "specMin Sensor_WPS_FL_init = 0" "specMax Sensor_WPS_FL_init = 0"
  "specMin Sensor_WPS_FR_init = 0" "specMax Sensor_WPS_FR_init = 0"
  "specMin Sensor_WPS_RL_init = 0" "specMax Sensor_WPS_RL_init = 0"
  "specMin Sensor_WPS_RR_init = 0" "specMax Sensor_WPS_RR_init = 0"
  "specMin Sensor_LVBattery_init = 0" "specMax Sensor_LVBattery_init = 0"
  by (simp_all add: Sensor_TPS0_init_def Sensor_BPS0_init_def Sensor_WSS_FL_init_def
      Sensor_WSS_FR_init_def Sensor_WSS_RL_init_def Sensor_WSS_RR_init_def Sensor_WPS_FL_init_def
      Sensor_WPS_FR_init_def Sensor_WPS_RL_init_def Sensor_WPS_RR_init_def
      Sensor_LVBattery_init_def ubyte2_of_floating_def)

lemma globals_init_calibration:
  "calibrateTPS_reset globals_init =
     \<lparr> Sensor_TPS0 = Sensor_TPS0_init\<lparr> calibMin := 4, calibMax := 0 \<rparr>,
       Sensor_TPS1 = Sensor_TPS1_init\<lparr> calibMin := 0, calibMax := 4 \<rparr> \<rparr>"
  by (simp add: calibrateTPS_reset_def globals_init_def Sensor_TPS0_init_def Sensor_TPS1_init_def
      ubyte2_of_floating_def)

lemma pedal_travel_run:
  "calibrateTPS 1 pedal_travel globals_init =
     Some \<lparr> Sensor_TPS0 = Sensor_TPS0_init\<lparr> isCalibrated := True, calibMin := 1, calibMax := 3,
                                               sensorValue := 3 \<rparr>,
            Sensor_TPS1 = Sensor_TPS1_init\<lparr> isCalibrated := True, calibMin := 0, calibMax := 4,
                                               sensorValue := 3 \<rparr> \<rparr>"
  by (simp add: calibrateTPS_def pedal_travel_def observe_def globals_init_calibration
      calibrateTPS_body_def sample_sensors_def recordMinMax_def calibrateTPS_commit_def Let_def)

section \<open>Properties of the wheel speed conversions\<close>

subsection \<open>Relative error of the double arithmetic\<close>

lemma double_round_rel_error:
  assumes "1 / 2 ^ 200 \<le> \<bar>x\<bar>" "\<bar>x\<bar> \<le> 2 ^ 200"
  obtains y where "double_round x = Finite y" "\<bar>y - x\<bar> \<le> \<bar>x\<bar> / 2 ^ 53"
proof -
  have "(2::rat) powi (- 1022) \<le> 2 powi (- 200)" by (rule power_int_increasing) simp_all
  also have "\<dots> = 1 / 2 ^ 200" by (simp add: power_int_minus_divide)
  finally have lo: "2 powi (- 1022) \<le> \<bar>x\<bar>" using assms(1) by linarith
  have "(2::rat) ^ 200 = 2 powi 200" by simp
  also have "\<dots> < 2 powi 1023" by (rule power_int_strict_increasing) simp_all
  finally have hi: "\<bar>x\<bar> < 2 powi 1023" using assms(2) by linarith
  obtain y where y: "fround 53 (- 1022) 1023 x = Finite y" "\<bar>y - x\<bar> \<le> \<bar>x\<bar> * 2 powi (- int 53)"
    using fround_rel_error [OF lo hi, of 53] by auto
  have "(2::rat) powi (- int 53) = 1 / 2 ^ 53" by (simp add: power_int_minus_divide)
  with y have "double_round x = Finite y" "\<bar>y - x\<bar> \<le> \<bar>x\<bar> / 2 ^ 53"
    by (simp_all add: double_round_def)
  then show thesis by (rule that)
qed

lemma double_round_int:
  assumes "\<bar>n\<bar> < 2 ^ 53"
  shows "double_round (of_int n) = Finite (of_int n)"
proof -
  have "(of_int \<bar>n\<bar> :: rat) < of_int (2 ^ 53)" using assms by (simp only: of_int_less_iff)
  then have "\<bar>of_int n :: rat\<bar> < 2 powi 53" by simp
  also have "(2::rat) powi 53 \<le> 2 powi (1023 + 1)" by (rule power_int_increasing) simp_all
  finally have "\<bar>of_int n * 2 powi 0 :: rat\<bar> < 2 powi (1023 + 1)" by simp
  then have "fround 53 (- 1022) 1023 (of_int n * 2 powi 0) = Finite (of_int n * 2 powi 0)"
    using assms by (intro fround_exact) simp_all
  then show ?thesis by (simp add: double_round_def)
qed

lemma double_constants:
  "NUM_BUMPS_D = Finite 16" "WHEEL_DIAMETER_D = Finite 18"
  "double_round 60 = Finite 60" "double_round 63360 = Finite 63360"
  "double_round 1 = Finite 1"
  using double_round_int [of 16] double_round_int [of 18] double_round_int [of 60]
    double_round_int [of 63360] double_round_int [of 1]
  by (simp_all add: NUM_BUMPS_D_def WHEEL_DIAMETER_D_def double_of_int_def)

lemma double_pi_constant:
  "double_round (314159265 / 100000000) = Finite (7074237743944945 / 2251799813685248)"
  using fround_normal [of 1 "314159265 / 100000000" "- 1022" 1023 53]
  by (simp add: double_round_def rne_def power_int_minus_divide)

lemma double_pi_diameter:
  "double_round (7074237743944945 / 2251799813685248 * 18) =
     Finite (7958517461938063 / 140737488355328)"
  using fround_normal [of 5 "7074237743944945 / 2251799813685248 * 18" "- 1022" 1023 53]
  by (simp add: double_round_def rne_def power_int_minus_divide)

text \<open>
  One rounded multiplication: if \<open>q\<close> approximates \<open>x\<close> within the relative error \<open>a\<close>, the
  rounded product \<open>q * c\<close> approximates \<open>x * c\<close> within \<open>a + (1 + a) / 2 ^ 53\<close>.
\<close>

lemma double_round_step:
  assumes q: "\<bar>q - x\<bar> \<le> a * \<bar>x\<bar>" and a: "0 \<le> a" "a \<le> 1 / 2"
      and b: "a + (1 + a) / 2 ^ 53 \<le> b"
      and r: "1 / 2 ^ 150 \<le> \<bar>x * c\<bar>" "\<bar>x * c\<bar> \<le> 2 ^ 150"
  obtains y where "double_round (q * c) = Finite y" "\<bar>y - x * c\<bar> \<le> b * \<bar>x * c\<bar>"
proof -
  have d: "\<bar>q * c - x * c\<bar> \<le> a * \<bar>x * c\<bar>"
  proof -
    have "\<bar>q * c - x * c\<bar> = \<bar>q - x\<bar> * \<bar>c\<bar>" by (simp add: left_diff_distrib [symmetric] abs_mult)
    also have "\<dots> \<le> a * \<bar>x\<bar> * \<bar>c\<bar>" using q by (simp add: mult_right_mono)
    finally show ?thesis by (simp add: abs_mult mult.assoc)
  qed
  then have up: "\<bar>q * c\<bar> \<le> (1 + a) * \<bar>x * c\<bar>" and low: "(1 - a) * \<bar>x * c\<bar> \<le> \<bar>q * c\<bar>"
    by (simp_all add: algebra_simps)
  have "(1 + a) * \<bar>x * c\<bar> \<le> (3 / 2) * 2 ^ 150"
    using a r(2) by (intro mult_mono) simp_all
  then have hi: "\<bar>q * c\<bar> \<le> 2 ^ 200" using up by simp
  have "(1 / 2) * (1 / 2 ^ 150) \<le> (1 - a) * \<bar>x * c\<bar>"
    using a r(1) by (intro mult_mono) simp_all
  then have lo: "1 / 2 ^ 200 \<le> \<bar>q * c\<bar>" using low by simp
  obtain y where y: "double_round (q * c) = Finite y" "\<bar>y - q * c\<bar> \<le> \<bar>q * c\<bar> / 2 ^ 53"
    using double_round_rel_error [OF lo hi] by blast
  have "\<bar>y - x * c\<bar> \<le> \<bar>y - q * c\<bar> + \<bar>q * c - x * c\<bar>" by simp
  also have "\<dots> \<le> (1 + a) * \<bar>x * c\<bar> / 2 ^ 53 + a * \<bar>x * c\<bar>"
    using y(2) up d by (simp add: divide_right_mono add_mono order_trans [OF y(2)])
  also have "\<dots> = (a + (1 + a) / 2 ^ 53) * \<bar>x * c\<bar>" by (simp add: algebra_simps)
  also have "\<dots> \<le> b * \<bar>x * c\<bar>" using b by (intro mult_right_mono) simp_all
  finally have "\<bar>y - x * c\<bar> \<le> b * \<bar>x * c\<bar>" .
  with y(1) show thesis by (rule that)
qed

subsection \<open>Accuracy of the two conversions\<close>

lemma freq_to_rpm_accuracy:
  assumes "1 / 2 ^ 100 \<le> \<bar>f\<bar>" "\<bar>f\<bar> \<le> 2 ^ 100"
  obtains y where "freq_to_rpm (Finite f) = Finite y"
    "\<bar>y - f / 16 * 60\<bar> \<le> \<bar>f / 16 * 60\<bar> / 2 ^ 51"
proof -
  have r1: "1 / 2 ^ 150 \<le> \<bar>f * (1 / 16)\<bar>" "\<bar>f * (1 / 16)\<bar> \<le> 2 ^ 150"
    using assms by (simp_all add: abs_mult)
  obtain y1 where y1: "double_round (f * (1 / 16)) = Finite y1"
    "\<bar>y1 - f * (1 / 16)\<bar> \<le> (1 / 2 ^ 53) * \<bar>f * (1 / 16)\<bar>"
    by (rule double_round_step [of f f 0 "1 / 2 ^ 53" "1 / 16"]) (use r1 in simp_all)
  have r2: "1 / 2 ^ 150 \<le> \<bar>f * (1 / 16) * 60\<bar>" "\<bar>f * (1 / 16) * 60\<bar> \<le> 2 ^ 150"
    using assms by (simp_all add: abs_mult)
  obtain y2 where y2: "double_round (y1 * 60) = Finite y2"
    "\<bar>y2 - f * (1 / 16) * 60\<bar> \<le> (1 / 2 ^ 51) * \<bar>f * (1 / 16) * 60\<bar>"
    by (rule double_round_step [OF y1(2) _ _ _ r2, of "1 / 2 ^ 51"]) simp_all
  have "freq_to_rpm (Finite f) = Finite y2"
    using y1(1) y2(1)
    by (simp add: freq_to_rpm_def double_constants fdiv_pos fmul_pos_right double_round_zero)
  moreover have "\<bar>y2 - f / 16 * 60\<bar> \<le> \<bar>f / 16 * 60\<bar> / 2 ^ 51"
    using y2(2) by simp
  ultimately show thesis by (rule that)
qed

lemma rpm_to_mph_accuracy:
  assumes "1 / 2 ^ 100 \<le> \<bar>r\<bar>" "\<bar>r\<bar> \<le> 2 ^ 100"
  obtains y where "rpm_to_mph (Finite r) = Finite y"
    "\<bar>y - 314159265 / 100000000 * 18 * r * 60 / 63360\<bar>
       \<le> \<bar>314159265 / 100000000 * 18 * r * 60 / 63360\<bar> / 2 ^ 50"
proof -
  define K :: rat where "K = 314159265 / 100000000 * 18"
  define k2 :: rat where "k2 = 7958517461938063 / 140737488355328"
  have k: "\<bar>k2 - K\<bar> \<le> (1 / 2 ^ 53) * \<bar>K\<bar>" by (simp add: k2_def K_def)
  have K: "\<bar>K\<bar> = 2827433385 / 50000000" by (simp add: K_def)
  have r1: "1 / 2 ^ 150 \<le> \<bar>K * r\<bar>" "\<bar>K * r\<bar> \<le> 2 ^ 150"
    using assms by (simp_all add: abs_mult K)
  obtain y1 where y1: "double_round (k2 * r) = Finite y1"
    "\<bar>y1 - K * r\<bar> \<le> (3 / 2 ^ 53) * \<bar>K * r\<bar>"
    by (rule double_round_step [OF k _ _ _ r1, of "3 / 2 ^ 53"]) simp_all
  have r2: "1 / 2 ^ 150 \<le> \<bar>K * r * 60\<bar>" "\<bar>K * r * 60\<bar> \<le> 2 ^ 150"
    using assms by (simp_all add: abs_mult K)
  obtain y2 where y2: "double_round (y1 * 60) = Finite y2"
    "\<bar>y2 - K * r * 60\<bar> \<le> (5 / 2 ^ 53) * \<bar>K * r * 60\<bar>"
    by (rule double_round_step [OF y1(2) _ _ _ r2, of "5 / 2 ^ 53"]) simp_all
  have r3: "1 / 2 ^ 150 \<le> \<bar>K * r * 60 * (1 / 63360)\<bar>" "\<bar>K * r * 60 * (1 / 63360)\<bar> \<le> 2 ^ 150"
    using assms by (simp_all add: abs_mult K)
  obtain y3 where y3: "double_round (y2 * (1 / 63360)) = Finite y3"
    "\<bar>y3 - K * r * 60 * (1 / 63360)\<bar> \<le> (1 / 2 ^ 50) * \<bar>K * r * 60 * (1 / 63360)\<bar>"
    by (rule double_round_step [OF y2(2) _ _ _ r3, of "1 / 2 ^ 50"]) simp_all
  have "rpm_to_mph (Finite r) = Finite y3"
    using y1(1) y2(1) y3(1) double_pi_constant double_pi_diameter
    by (simp add: rpm_to_mph_def double_constants k2_def fdiv_pos fmul_pos_left fmul_pos_right
        double_round_zero)
  moreover have "\<bar>y3 - 314159265 / 100000000 * 18 * r * 60 / 63360\<bar>
       \<le> \<bar>314159265 / 100000000 * 18 * r * 60 / 63360\<bar> / 2 ^ 50"
    using y3(2) by (simp add: K_def)
  ultimately show thesis by (rule that)
qed

lemma freq_to_rpm_16: "freq_to_rpm (Finite 16) = Finite 60"
  by (simp add: freq_to_rpm_def double_constants fdiv_pos fmul_pos_right double_round_zero)

lemma double_round_ex1: "double_round (7958517461938063 / 140737488355328 * 60) = Finite (3730555060283467 / 1099511627776)"
  using fround_normal [of 11 "7958517461938063 / 140737488355328 * 60" "- 1022" 1023 53]
  by (simp add: double_round_def rne_def power_int_minus_divide)

lemma double_round_ex2: "double_round (3730555060283467 / 1099511627776 * 60) = Finite (6994790738031501 / 34359738368)"
  using fround_normal [of 17 "3730555060283467 / 1099511627776 * 60" "- 1022" 1023 53]
  by (simp add: double_round_def rne_def power_int_minus_divide)

lemma double_round_ex3: "double_round (6994790738031501 / 34359738368 / 63360) = Finite (7235015874489149 / 2251799813685248)"
  using fround_normal [of 1 "6994790738031501 / 34359738368 / 63360" "- 1022" 1023 53]
  by (simp add: double_round_def rne_def power_int_minus_divide)

lemma rpm_to_mph_60: "rpm_to_mph (Finite 60) = Finite (7235015874489149 / 2251799813685248)"
  using double_round_ex1 double_round_ex2 double_round_ex3 double_pi_constant double_pi_diameter
  by (simp add: rpm_to_mph_def double_constants fdiv_pos fmul_pos_left fmul_pos_right
      double_round_zero)

subsection \<open>A lower bound of \<open>pi\<close>\<close>

text \<open>
  The partial sums of the arctangent series bracket the arctangent (Leibniz), which with
  Machin's formula bounds \<open>pi\<close> from below.
\<close>

lemma arctan_brackets:
  assumes "0 < x" "x \<le> 1"
  shows "(\<Sum>i<2 * n. (- 1) ^ i * (1 / real (i * 2 + 1) * x ^ (i * 2 + 1))) \<le> arctan x"
    and "arctan x \<le> (\<Sum>i<2 * n + 1. (- 1) ^ i * (1 / real (i * 2 + 1) * x ^ (i * 2 + 1)))"
proof -
  have a: "\<bar>x\<bar> \<le> 1" using assms by simp
  have "0 < 1 / real (0 * 2 + 1) * x ^ (0 * 2 + 1)" using assms by simp
  then have "\<forall>n. (\<Sum>i. (- 1) ^ i * (1 / real (i * 2 + 1) * x ^ (i * 2 + 1))) \<in>
      {\<Sum>i<2 * n. (- 1) ^ i * (1 / real (i * 2 + 1) * x ^ (i * 2 + 1)) ..
       \<Sum>i<2 * n + 1. (- 1) ^ i * (1 / real (i * 2 + 1) * x ^ (i * 2 + 1))}"
    using summable_Leibniz(2) [OF zeroseq_arctan_series [OF a] monoseq_arctan_series [OF a]]
    by blast
  then have "arctan x \<in>
      {\<Sum>i<2 * n. (- 1) ^ i * (1 / real (i * 2 + 1) * x ^ (i * 2 + 1)) ..
       \<Sum>i<2 * n + 1. (- 1) ^ i * (1 / real (i * 2 + 1) * x ^ (i * 2 + 1))}"
    unfolding arctan_series [OF a] by blast
  then show "(\<Sum>i<2 * n. (- 1) ^ i * (1 / real (i * 2 + 1) * x ^ (i * 2 + 1))) \<le> arctan x"
    and "arctan x \<le> (\<Sum>i<2 * n + 1. (- 1) ^ i * (1 / real (i * 2 + 1) * x ^ (i * 2 + 1)))"
    by simp_all
qed

lemma pi_lower: "3.1415926535 < pi"
proof -
  have l: "(\<Sum>i<2 * 4. (- 1) ^ i * (1 / real (i * 2 + 1) * (1 / 5 :: real) ^ (i * 2 + 1)))
             \<le> arctan (1 / 5)"
    by (rule arctan_brackets) simp_all
  have u: "arctan (1 / 239) \<le>
             (\<Sum>i<2 * 1 + 1. (- 1) ^ i * (1 / real (i * 2 + 1) * (1 / 239 :: real) ^ (i * 2 + 1)))"
    by (rule arctan_brackets) simp_all
  have "(3.1415926535 :: real) <
          16 * (\<Sum>i<2 * 4. (- 1) ^ i * (1 / real (i * 2 + 1) * (1 / 5 :: real) ^ (i * 2 + 1))) -
          4 * (\<Sum>i<2 * 1 + 1. (- 1) ^ i * (1 / real (i * 2 + 1) * (1 / 239 :: real) ^ (i * 2 + 1)))"
    by (simp add: numeral_eq_Suc)
  also have "\<dots> \<le> 16 * arctan (1 / 5) - 4 * arctan (1 / 239)"
    using l u by linarith
  also have "\<dots> = pi" using machin by simp
  finally show ?thesis .
qed

section \<open>The specified properties, checked against the code\<close>

text \<open>
  C1. Whenever an evaluation detects a fault, be it a reading outside its datasheet
  range, a sensor that is not calibrated, or two pedal fractions more than the tolerance
  \<open>.1\<close> apart, \<open>GetThrottlePosition\<close> returns the fail-safe value 0, whatever the other
  channel says.
\<close>

theorem GetThrottlePosition_failsafe:
  assumes "sensorValue (Sensor_TPS0 g) < specMin (Sensor_TPS0 g) \<or>
           sensorValue (Sensor_TPS0 g) > specMax (Sensor_TPS0 g) \<or>
           sensorValue (Sensor_TPS1 g) < specMin (Sensor_TPS1 g) \<or>
           sensorValue (Sensor_TPS1 g) > specMax (Sensor_TPS1 g) \<or>
           \<not> isCalibrated (Sensor_TPS0 g) \<or> \<not> isCalibrated (Sensor_TPS1 g) \<or>
           fgt (fabs (fsub float4_round (TPS1PedalPercent g) (TPS0PedalPercent g)))
               (double_round (1 / 10))"
  shows "GetThrottlePosition g = Finite 0"
proof -
  have "TPSErrorState g \<noteq> 0"
    using assms by (auto simp add: TPSErrorState_zero_iff outOfSpec_def TPSDiscrepancy_def)
  then show ?thesis by (simp add: GetThrottlePosition_cases)
qed

text \<open>Readings of 55 and 40 on a travel of 100 are in range and calibrated, but .15 apart.\<close>

theorem GetThrottlePosition_failsafe_witness:
  "fgt (fabs (fsub float4_round (TPS1PedalPercent (example_pair 0 100 0 100 55 40))
                                (TPS0PedalPercent (example_pair 0 100 0 100 55 40))))
       (double_round (1 / 10)) \<and>
   GetThrottlePosition (example_pair 0 100 0 100 55 40) = Finite 0"
proof -
  have d: "fgt (fabs (fsub float4_round (TPS1PedalPercent (example_pair 0 100 0 100 55 40))
                                        (TPS0PedalPercent (example_pair 0 100 0 100 55 40))))
               (double_round (1 / 10))"
    by (simp add: example_55_40 fsub_def float4_round_diff_055_040 double_tenth fgt_def)
  then show ?thesis
    using GetThrottlePosition_failsafe [of "example_pair 0 100 0 100 55 40"] by simp
qed

text \<open>
  C2, at the inputs where the code departs from it. A calibration run is to set
  \<open>isCalibrated\<close> only once the recorded span has passed a sanity check, \<open>calibMax\<close>
  above \<open>calibMin\<close> by some minimum. \<open>calibrateTPS\<close> sets the flag in every case: with
  the pedal held still for the whole run it commits the empty span from 2 to 2, and with
  a run of zero seconds it commits the reset values, \<open>calibMin\<close> 4 above \<open>calibMax\<close> 0.
\<close>

theorem calibrateTPS_commits_degenerate:
  "map_option (calibration_of \<circ> Sensor_TPS0) (calibrateTPS 1 pedal_at_rest globals_init) =
     Some (2, 2, True) \<and>
   map_option (calibration_of \<circ> Sensor_TPS0) (calibrateTPS 0 pedal_at_rest globals_init) =
     Some (4, 0, True)"
  by (simp add: calibrateTPS_def pedal_at_rest_def observe_def globals_init_calibration
      calibrateTPS_body_def sample_sensors_def recordMinMax_def calibrateTPS_commit_def
      calibration_of_def Let_def)

text \<open>
  C3, as the code has it. A zero calibration span is not reported as an error:
  \<open>getPercent\<close> has no error result and divides in every case. With \<open>max = min\<close> the
  quotient of two 16-bit readings is an infinity or a NaN, which the clamp of
  \<open>zeroToOneOnly\<close> turns into 1 or 0 but leaves a NaN as it is.
\<close>

theorem getPercent_zero_span:
  "getPercent (float4_of_ubyte2 v) (float4_of_ubyte2 m) (float4_of_ubyte2 m) zeroToOneOnly =
     (if zeroToOneOnly
      then (if m < v then Finite 1 else if v < m then Finite 0 else NaN)
      else (if m < v then PlusInf else if v < m then MinusInf else NaN))"
proof -
  have "getPercent (float4_of_ubyte2 v) (float4_of_ubyte2 m) (float4_of_ubyte2 m) False =
          (if m < v then PlusInf else if v < m then MinusInf else NaN)"
    by (auto simp add: getPercent_ubyte2 finf_def)
  then show ?thesis
    by (simp add: getPercent_clamp Let_def fgt_def)
qed

text \<open>The reading 5 against a calibration range from 3 to 3 yields an infinity, not an error.\<close>

theorem getPercent_zero_span_counterexample:
  "getPercent (float4_of_ubyte2 5) (float4_of_ubyte2 3) (float4_of_ubyte2 3) False = PlusInf"
  by (simp add: getPercent_ubyte2 finf_def)

text \<open>
  C4, as the code has it. The datasheet bounds are set by the initialisers and a
  calibration run leaves them as they are (\<open>GetThrottlePosition\<close> writes nothing at all).
  The bounds are in ascending order, 0 below 4, for \<open>Sensor_TPS0\<close> and \<open>Sensor_BPS0\<close>;
  the sensor objects initialised without bounds have both bounds 0, so that
  \<open>specMin < specMax\<close> does not hold for every sensor object.
\<close>

theorem sensor_spec_bounds:
  assumes "calibrateTPS secs obs g = Some g'"
  shows "specMin (Sensor_TPS0 g') = specMin (Sensor_TPS0 g) \<and>
         specMax (Sensor_TPS0 g') = specMax (Sensor_TPS0 g) \<and>
         specMin (Sensor_TPS1 g') = specMin (Sensor_TPS1 g) \<and>
         specMax (Sensor_TPS1 g') = specMax (Sensor_TPS1 g) \<and>
         specMin Sensor_TPS0_init < specMax Sensor_TPS0_init \<and>
         specMin Sensor_BPS0_init < specMax Sensor_BPS0_init \<and>
         specMin Sensor_WSS_FL_init = 0 \<and> specMax Sensor_WSS_FL_init = 0 \<and>
         specMin Sensor_WSS_FR_init = 0 \<and> specMax Sensor_WSS_FR_init = 0 \<and>
         specMin Sensor_WSS_RL_init = 0 \<and> specMax Sensor_WSS_RL_init = 0 \<and>
         specMin Sensor_WSS_RR_init = 0 \<and> specMax Sensor_WSS_RR_init = 0 \<and>
         specMin Sensor_WPS_FL_init = 0 \<and> specMax Sensor_WPS_FL_init = 0 \<and>
         specMin Sensor_WPS_FR_init = 0 \<and> specMax Sensor_WPS_FR_init = 0 \<and>
         specMin Sensor_WPS_RL_init = 0 \<and> specMax Sensor_WPS_RL_init = 0 \<and>
         specMin Sensor_WPS_RR_init = 0 \<and> specMax Sensor_WPS_RR_init = 0 \<and>
         specMin Sensor_LVBattery_init = 0 \<and> specMax Sensor_LVBattery_init = 0"
proof -
  obtain g1 where l: "calibrateTPS_loop (ucast secs * 1000 * 1000) obs (calibrateTPS_reset g) = Some g1"
    and g': "g' = calibrateTPS_commit g1"
    using assms unfolding calibrateTPS_def by (auto split: option.splits)
  have "specMin (Sensor_TPS0 g') = specMin (Sensor_TPS0 g) \<and>
        specMax (Sensor_TPS0 g') = specMax (Sensor_TPS0 g) \<and>
        specMin (Sensor_TPS1 g') = specMin (Sensor_TPS1 g) \<and>
        specMax (Sensor_TPS1 g') = specMax (Sensor_TPS1 g)"
    using calibrateTPS_loop_spec [OF l]
    by (simp add: g' calibrateTPS_commit_def calibrateTPS_reset_def)
  then show ?thesis by (simp add: Sensor_init_specs)
qed

text \<open>The front left wheel speed sensor has the empty range from 0 to 0.\<close>

theorem sensor_spec_bounds_counterexample:
  "\<not> specMin Sensor_WSS_FL_init < specMax Sensor_WSS_FL_init"
  by (simp add: Sensor_init_specs)

text \<open>A run with the pedal at rest, from the initial state.\<close>

theorem sensor_spec_bounds_witness:
  "\<exists>g'. calibrateTPS 1 pedal_at_rest globals_init = Some g' \<and>
        specMin (Sensor_TPS0 g') = specMin (Sensor_TPS0 globals_init) \<and>
        specMax (Sensor_TPS0 g') = specMax (Sensor_TPS0 globals_init) \<and>
        specMin (Sensor_TPS1 g') = specMin (Sensor_TPS1 globals_init) \<and>
        specMax (Sensor_TPS1 g') = specMax (Sensor_TPS1 globals_init)"
proof -
  obtain g' where r: "calibrateTPS 1 pedal_at_rest globals_init = Some g'"
    unfolding calibrateTPS_def limit_one_second pedal_at_rest_def
    by (simp add: observe_def)
  from sensor_spec_bounds [OF r] r show ?thesis by simp
qed

text \<open>
  C5. \<open>Sensor_TPS1\<close> is initialised with the datasheet bounds in descending order, and
  the 16-bit fields keep 4 and 0 of them. As long as the two bounds are as initialised,
  every reading of \<open>Sensor_TPS1\<close> fails the range test, the error counter is positive and
  \<open>GetThrottlePosition\<close> returns 0: the mean of the two fractions is never returned.
\<close>

theorem TPS1_shipped_never_trusted:
  assumes "specMin (Sensor_TPS1 g) = specMin Sensor_TPS1_init"
      and "specMax (Sensor_TPS1 g) = specMax Sensor_TPS1_init"
  shows "specMin (Sensor_TPS1 g) = 4 \<and> specMax (Sensor_TPS1 g) = 0 \<and>
         (sensorValue (Sensor_TPS1 g) < specMin (Sensor_TPS1 g) \<or>
          sensorValue (Sensor_TPS1 g) > specMax (Sensor_TPS1 g)) \<and>
         0 < TPSErrorState g \<and> GetThrottlePosition g = Finite 0"
proof -
  have spec: "specMin (Sensor_TPS1 g) = 4" "specMax (Sensor_TPS1 g) = 0"
    using assms Sensor_TPS1_init_spec by simp_all
  then have oos: "outOfSpec (Sensor_TPS1 g)" by (rule always_outOfSpec)
  then have "TPSErrorState g \<noteq> 0" by (simp add: TPSErrorState_zero_iff)
  then have "0 < TPSErrorState g" "GetThrottlePosition g = Finite 0"
    by (simp_all add: GetThrottlePosition_cases word_gt_0)
  with spec oos show ?thesis by (simp add: outOfSpec_def)
qed

theorem TPS1_shipped_never_trusted_witness:
  "specMin (Sensor_TPS1 globals_init) = specMin Sensor_TPS1_init \<and>
   specMax (Sensor_TPS1 globals_init) = specMax Sensor_TPS1_init \<and>
   0 < TPSErrorState globals_init \<and> GetThrottlePosition globals_init = Finite 0"
  using TPS1_shipped_never_trusted [of globals_init] by (simp add: globals_init_def)

text \<open>
  C6, as the code has it. \<open>GetThrottlePosition\<close> computes the two fractions without
  the clamp (\<open>zeroToOneOnly\<close> is false), so that a fraction is not confined to
  \<open>[0, 1]\<close>: against a calibrated range \<open>calibMin < calibMax\<close>, a reading above the
  range gives a fraction above 1 and a reading below it a fraction below 0. The value the
  function returns is a number in \<open>[0, 1]\<close> whenever \<open>Sensor_TPS1\<close> has the bounds it is
  initialised with or a fault is detected otherwise (the value is then 0), and whenever
  each reading lies within the calibrated range of its sensor.
\<close>

theorem GetThrottlePosition_range:
  "((specMin (Sensor_TPS1 g) = specMin Sensor_TPS1_init \<and>
     specMax (Sensor_TPS1 g) = specMax Sensor_TPS1_init) \<or>
    TPSErrorState g \<noteq> 0 \<or>
    (calibMin (Sensor_TPS0 g) < calibMax (Sensor_TPS0 g) \<and>
     calibMin (Sensor_TPS0 g) \<le> sensorValue (Sensor_TPS0 g) \<and>
     sensorValue (Sensor_TPS0 g) \<le> calibMax (Sensor_TPS0 g) \<and>
     calibMin (Sensor_TPS1 g) < calibMax (Sensor_TPS1 g) \<and>
     calibMin (Sensor_TPS1 g) \<le> sensorValue (Sensor_TPS1 g) \<and>
     sensorValue (Sensor_TPS1 g) \<le> calibMax (Sensor_TPS1 g)) \<longrightarrow>
      (\<exists>r. GetThrottlePosition g = Finite r \<and> 0 \<le> r \<and> r \<le> 1)) \<and>
   (calibMin (Sensor_TPS0 g) < calibMax (Sensor_TPS0 g) \<and>
    calibMax (Sensor_TPS0 g) < sensorValue (Sensor_TPS0 g) \<longrightarrow>
      (\<exists>a. TPS0PedalPercent g = Finite a \<and> 1 < a)) \<and>
   (calibMin (Sensor_TPS0 g) < calibMax (Sensor_TPS0 g) \<and>
    sensorValue (Sensor_TPS0 g) < calibMin (Sensor_TPS0 g) \<longrightarrow>
      (\<exists>a. TPS0PedalPercent g = Finite a \<and> a < 0)) \<and>
   (calibMin (Sensor_TPS1 g) < calibMax (Sensor_TPS1 g) \<and>
    calibMax (Sensor_TPS1 g) < sensorValue (Sensor_TPS1 g) \<longrightarrow>
      (\<exists>a. TPS1PedalPercent g = Finite a \<and> 1 < a)) \<and>
   (calibMin (Sensor_TPS1 g) < calibMax (Sensor_TPS1 g) \<and>
    sensorValue (Sensor_TPS1 g) < calibMin (Sensor_TPS1 g) \<longrightarrow>
      (\<exists>a. TPS1PedalPercent g = Finite a \<and> a < 0))"
proof -
  have range: "\<exists>r. GetThrottlePosition g = Finite r \<and> 0 \<le> r \<and> r \<le> 1"
    if h: "(specMin (Sensor_TPS1 g) = specMin Sensor_TPS1_init \<and>
            specMax (Sensor_TPS1 g) = specMax Sensor_TPS1_init) \<or>
           TPSErrorState g \<noteq> 0 \<or>
           (calibMin (Sensor_TPS0 g) < calibMax (Sensor_TPS0 g) \<and>
            calibMin (Sensor_TPS0 g) \<le> sensorValue (Sensor_TPS0 g) \<and>
            sensorValue (Sensor_TPS0 g) \<le> calibMax (Sensor_TPS0 g) \<and>
            calibMin (Sensor_TPS1 g) < calibMax (Sensor_TPS1 g) \<and>
            calibMin (Sensor_TPS1 g) \<le> sensorValue (Sensor_TPS1 g) \<and>
            sensorValue (Sensor_TPS1 g) \<le> calibMax (Sensor_TPS1 g))"
  proof (cases "TPSErrorState g = 0")
    case False
    then show ?thesis by (simp add: GetThrottlePosition_cases)
  next
    case True
    have "\<not> (specMin (Sensor_TPS1 g) = specMin Sensor_TPS1_init \<and>
              specMax (Sensor_TPS1 g) = specMax Sensor_TPS1_init)"
      using True always_outOfSpec [of "Sensor_TPS1 g"] Sensor_TPS1_init_spec
      by (auto simp add: TPSErrorState_zero_iff)
    with True h have c:
      "calibMin (Sensor_TPS0 g) < calibMax (Sensor_TPS0 g)"
      "calibMin (Sensor_TPS0 g) \<le> sensorValue (Sensor_TPS0 g)"
      "sensorValue (Sensor_TPS0 g) \<le> calibMax (Sensor_TPS0 g)"
      "calibMin (Sensor_TPS1 g) < calibMax (Sensor_TPS1 g)"
      "calibMin (Sensor_TPS1 g) \<le> sensorValue (Sensor_TPS1 g)"
      "sensorValue (Sensor_TPS1 g) \<le> calibMax (Sensor_TPS1 g)"
      by simp_all
    obtain r0 where r0: "TPS0PedalPercent g = Finite r0" "0 \<le> r0" "r0 \<le> 1"
      unfolding TPS0PedalPercent_def using getPercent_in_calibration [OF c(1-3)] by blast
    obtain r1 where r1: "TPS1PedalPercent g = Finite r1" "0 \<le> r1" "r1 \<le> 1"
      unfolding TPS1PedalPercent_def using getPercent_in_calibration [OF c(4-6)] by blast
    obtain r where
      "fdiv float4_round (fadd float4_round (Finite r0) (Finite r1)) (Finite 2) = Finite r"
      "0 \<le> r" "r \<le> 1"
      using float4_mean_unit [OF r0(2,3) r1(2,3)] by blast
    then show ?thesis using True r0(1) r1(1) by (simp add: GetThrottlePosition_cases)
  qed
  have "calibMin (Sensor_TPS0 g) < calibMax (Sensor_TPS0 g) \<and>
        calibMax (Sensor_TPS0 g) < sensorValue (Sensor_TPS0 g) \<longrightarrow>
          (\<exists>a. TPS0PedalPercent g = Finite a \<and> 1 < a)"
    unfolding TPS0PedalPercent_def using getPercent_over_travel by blast
  moreover have "calibMin (Sensor_TPS0 g) < calibMax (Sensor_TPS0 g) \<and>
        sensorValue (Sensor_TPS0 g) < calibMin (Sensor_TPS0 g) \<longrightarrow>
          (\<exists>a. TPS0PedalPercent g = Finite a \<and> a < 0)"
    unfolding TPS0PedalPercent_def using getPercent_under_travel by blast
  moreover have "calibMin (Sensor_TPS1 g) < calibMax (Sensor_TPS1 g) \<and>
        calibMax (Sensor_TPS1 g) < sensorValue (Sensor_TPS1 g) \<longrightarrow>
          (\<exists>a. TPS1PedalPercent g = Finite a \<and> 1 < a)"
    unfolding TPS1PedalPercent_def using getPercent_over_travel by blast
  moreover have "calibMin (Sensor_TPS1 g) < calibMax (Sensor_TPS1 g) \<and>
        sensorValue (Sensor_TPS1 g) < calibMin (Sensor_TPS1 g) \<longrightarrow>
          (\<exists>a. TPS1PedalPercent g = Finite a \<and> a < 0)"
    unfolding TPS1PedalPercent_def using getPercent_under_travel by blast
  ultimately show ?thesis using range by blast
qed

text \<open>
  From the initial sensor objects, a calibration run over the pedal readings 1 to 3
  commits the range from 1 to 3 for \<open>Sensor_TPS0\<close>; at a later reading of 4 the fraction
  of \<open>Sensor_TPS0\<close> is 1.5.
\<close>

theorem GetThrottlePosition_range_counterexample:
  "map_option (calibration_of \<circ> Sensor_TPS0) (calibrateTPS 1 pedal_travel globals_init) =
     Some (1, 3, True) \<and>
   map_option (TPS0PedalPercent \<circ> sample_sensors (observe 2000000 4))
     (calibrateTPS 1 pedal_travel globals_init) = Some (Finite (3 / 2))"
  by (simp add: pedal_travel_run calibration_of_def sample_sensors_def observe_def
      TPS0PedalPercent_def getPercent_ubyte2 float4_round_3_2)

text \<open>
  That state, in which \<open>Sensor_TPS1\<close> has its initial bounds and the reading of
  \<open>Sensor_TPS0\<close> is above its calibrated range, and a pair of sensors reading 52 and 48
  on a travel of 100.
\<close>

theorem GetThrottlePosition_range_witness:
  "(\<exists>g'. calibrateTPS 1 pedal_travel globals_init = Some g' \<and>
         specMin (Sensor_TPS1 (sample_sensors (observe 2000000 4) g')) = specMin Sensor_TPS1_init \<and>
         specMax (Sensor_TPS1 (sample_sensors (observe 2000000 4) g')) = specMax Sensor_TPS1_init \<and>
         (\<exists>r. GetThrottlePosition (sample_sensors (observe 2000000 4) g') = Finite r \<and>
              0 \<le> r \<and> r \<le> 1) \<and>
         calibMin (Sensor_TPS0 (sample_sensors (observe 2000000 4) g'))
           < calibMax (Sensor_TPS0 (sample_sensors (observe 2000000 4) g')) \<and>
         calibMax (Sensor_TPS0 (sample_sensors (observe 2000000 4) g'))
           < sensorValue (Sensor_TPS0 (sample_sensors (observe 2000000 4) g')) \<and>
         (\<exists>a. TPS0PedalPercent (sample_sensors (observe 2000000 4) g') = Finite a \<and> 1 < a)) \<and>
   TPSErrorState (example_pair 0 100 0 100 52 48) = 0 \<and>
   (\<exists>r. GetThrottlePosition (example_pair 0 100 0 100 52 48) = Finite r \<and> 0 \<le> r \<and> r \<le> 1)"
proof -
  obtain g' where g': "calibrateTPS 1 pedal_travel globals_init = Some g'"
    "specMin (Sensor_TPS1 (sample_sensors (observe 2000000 4) g')) = specMin Sensor_TPS1_init"
    "specMax (Sensor_TPS1 (sample_sensors (observe 2000000 4) g')) = specMax Sensor_TPS1_init"
    "calibMin (Sensor_TPS0 (sample_sensors (observe 2000000 4) g'))
       < calibMax (Sensor_TPS0 (sample_sensors (observe 2000000 4) g'))"
    "calibMax (Sensor_TPS0 (sample_sensors (observe 2000000 4) g'))
       < sensorValue (Sensor_TPS0 (sample_sensors (observe 2000000 4) g'))"
    by (simp add: pedal_travel_run sample_sensors_def observe_def)
  have "\<exists>r. GetThrottlePosition (sample_sensors (observe 2000000 4) g') = Finite r \<and> 0 \<le> r \<and> r \<le> 1"
    using GetThrottlePosition_range [of "sample_sensors (observe 2000000 4) g'"] g'(2,3) by blast
  moreover have "\<exists>a. TPS0PedalPercent (sample_sensors (observe 2000000 4) g') = Finite a \<and> 1 < a"
    using GetThrottlePosition_range [of "sample_sensors (observe 2000000 4) g'"] g'(4,5) by blast
  moreover have e: "TPSErrorState (example_pair 0 100 0 100 52 48) = 0"
    by (simp add: TPSErrorState_zero_iff outOfSpec_def TPSDiscrepancy_def example_pair_fields
        example_52_48 fsub_Finite float4_round_diff_052_048 double_tenth fgt_def)
  moreover have "\<exists>r. GetThrottlePosition (example_pair 0 100 0 100 52 48) = Finite r \<and> 0 \<le> r \<and> r \<le> 1"
    using GetThrottlePosition_range [of "example_pair 0 100 0 100 52 48"]
    by (simp add: example_pair_fields)
  ultimately show ?thesis using g' by blast
qed




text \<open>
  C8, as the code has it. A calibration run that reaches its time limit resets
  \<open>calibMin\<close> to \<open>specMax\<close> and \<open>calibMax\<close> to \<open>specMin\<close>, takes the minimum and the
  maximum with every sample observed, and sets \<open>isCalibrated\<close>: each sensor ends with
  \<open>calibMin\<close> the least of \<open>specMax\<close> and its samples, and \<open>calibMax\<close> the greatest of
  \<open>specMin\<close> and its samples. The samples are 16-bit integers, so that the voltages
  0.5 and 4.5 are not among the values a run can commit.
\<close>

theorem calibrateTPS_commits:
  assumes "\<forall>ob \<in> set obs. elapsedUS ob < ucast secs * 1000 * 1000"
      and "\<not> elapsedUS final < ucast secs * 1000 * 1000"
  shows "calibration_of (Sensor_TPS0 (calibrateTPS_reset g)) =
           (specMax (Sensor_TPS0 g), specMin (Sensor_TPS0 g), False) \<and>
         calibration_of (Sensor_TPS1 (calibrateTPS_reset g)) =
           (specMax (Sensor_TPS1 g), specMin (Sensor_TPS1 g), False) \<and>
         calibMin (recordMinMax s) = min (calibMin s) (sensorValue s) \<and>
         calibMax (recordMinMax s) = max (calibMax s) (sensorValue s) \<and>
         (\<exists>g'. calibrateTPS secs (obs @ final # rest) g = Some g' \<and>
           calibMin (Sensor_TPS0 g') = Min (set (specMax (Sensor_TPS0 g) # map TPS0_sample obs)) \<and>
           calibMax (Sensor_TPS0 g') = Max (set (specMin (Sensor_TPS0 g) # map TPS0_sample obs)) \<and>
           isCalibrated (Sensor_TPS0 g') \<and>
           calibMin (Sensor_TPS1 g') = Min (set (specMax (Sensor_TPS1 g) # map TPS1_sample obs)) \<and>
           calibMax (Sensor_TPS1 g') = Max (set (specMin (Sensor_TPS1 g) # map TPS1_sample obs)) \<and>
           isCalibrated (Sensor_TPS1 g'))"
proof -
  let ?g = "fold (\<lambda>ob g. calibrateTPS_body (sample_sensors ob g)) obs (calibrateTPS_reset g)"
  have r0: "calibMin (Sensor_TPS0 (calibrateTPS_reset g)) = specMax (Sensor_TPS0 g)"
           "calibMax (Sensor_TPS0 (calibrateTPS_reset g)) = specMin (Sensor_TPS0 g)"
   and r1: "calibMin (Sensor_TPS1 (calibrateTPS_reset g)) = specMax (Sensor_TPS1 g)"
           "calibMax (Sensor_TPS1 (calibrateTPS_reset g)) = specMin (Sensor_TPS1 g)"
    by (simp_all add: calibrateTPS_reset_def)
  have "calibMin (Sensor_TPS0 ?g) = Min (set (specMax (Sensor_TPS0 g) # map TPS0_sample obs))"
       "calibMax (Sensor_TPS0 ?g) = Max (set (specMin (Sensor_TPS0 g) # map TPS0_sample obs))"
       "calibMin (Sensor_TPS1 ?g) = Min (set (specMax (Sensor_TPS1 g) # map TPS1_sample obs))"
       "calibMax (Sensor_TPS1 ?g) = Max (set (specMin (Sensor_TPS1 g) # map TPS1_sample obs))"
    by (simp_all only: fold_step_TPS0 fold_step_TPS1 fold_recordMinMax r0 r1 fold_min_Min fold_max_Max)
  then have "\<exists>g'. calibrateTPS secs (obs @ final # rest) g = Some g' \<and>
           calibMin (Sensor_TPS0 g') = Min (set (specMax (Sensor_TPS0 g) # map TPS0_sample obs)) \<and>
           calibMax (Sensor_TPS0 g') = Max (set (specMin (Sensor_TPS0 g) # map TPS0_sample obs)) \<and>
           isCalibrated (Sensor_TPS0 g') \<and>
           calibMin (Sensor_TPS1 g') = Min (set (specMax (Sensor_TPS1 g) # map TPS1_sample obs)) \<and>
           calibMax (Sensor_TPS1 g') = Max (set (specMin (Sensor_TPS1 g) # map TPS1_sample obs)) \<and>
           isCalibrated (Sensor_TPS1 g')"
    unfolding calibrateTPS_run [OF assms] by (simp add: calibrateTPS_commit_def)
  moreover have "calibration_of (Sensor_TPS0 (calibrateTPS_reset g)) =
           (specMax (Sensor_TPS0 g), specMin (Sensor_TPS0 g), False)"
         "calibration_of (Sensor_TPS1 (calibrateTPS_reset g)) =
           (specMax (Sensor_TPS1 g), specMin (Sensor_TPS1 g), False)"
    by (simp_all add: calibration_of_def calibrateTPS_reset_def)
  moreover have "calibMin (recordMinMax s) = min (calibMin s) (sensorValue s)"
         "calibMax (recordMinMax s) = max (calibMax s) (sensorValue s)"
    by (simp_all add: recordMinMax_fields min.commute max.commute)
  ultimately show ?thesis by blast
qed

text \<open>A sweep over the readings 0 to 4 commits 0 and 4.\<close>

theorem calibrateTPS_commits_witness:
  "list_all (\<lambda>ob. elapsedUS ob < ucast (1 :: ubyte1) * 1000 * 1000) pedal_sweep \<and>
   \<not> elapsedUS (observe 1000000 4) < ucast (1 :: ubyte1) * 1000 * 1000 \<and>
   (\<exists>g'. calibrateTPS 1 (pedal_sweep @ observe 1000000 4 # []) globals_init = Some g' \<and>
         calibMin (Sensor_TPS0 g') = 0 \<and> calibMax (Sensor_TPS0 g') = 4 \<and>
         isCalibrated (Sensor_TPS0 g'))"
proof -
  have h: "\<forall>ob \<in> set pedal_sweep. elapsedUS ob < ucast (1 :: ubyte1) * 1000 * 1000"
          "\<not> elapsedUS (observe 1000000 4) < ucast (1 :: ubyte1) * 1000 * 1000"
    by (simp_all add: pedal_sweep_def observe_def)
  have s: "specMax (Sensor_TPS0 globals_init) = 4" "specMin (Sensor_TPS0 globals_init) = 0"
    by (simp_all add: globals_init_def Sensor_init_specs)
  have m: "map TPS0_sample pedal_sweep = [0, 1, 2, 3, 4]"
    by (simp add: pedal_sweep_def observe_def)
  show ?thesis
    using calibrateTPS_commits [OF h, where rest = "[]" and g = globals_init] h
    by (simp only: s m list_all_iff) auto
qed

text \<open>A sweep over the voltages 0.5 to 4.5, held in 16-bit fields, commits 0 and 4 as well.\<close>

theorem calibrateTPS_voltage_sweep_counterexample:
  "map_option (calibration_of \<circ> Sensor_TPS0) (calibrateTPS 1 voltage_sweep globals_init) =
     Some (0, 4, True)"
  by (simp add: calibrateTPS_def voltage_sweep_def observe_def globals_init_calibration
      calibrateTPS_body_def sample_sensors_def recordMinMax_def calibrateTPS_commit_def
      calibration_of_def Let_def ubyte2_of_floating_def)

text \<open>
  C9, as the code has it. The arguments of \<open>getPercent\<close> are \<open>float4\<close> data, and the
  difference of two finite numbers can overflow the format. For numbers of the format
  \<open>min < max\<close> whose difference is below \<open>2\<^sup>1\<^sup>2\<^sup>8 - 2\<^sup>1\<^sup>0\<^sup>3\<close>, the least number that is
  rounded to infinity, and for numbers \<open>v \<le> v'\<close> of the format between them, the bounded
  normalisation (\<open>getPercent\<close> with \<open>zeroToOneOnly\<close> true) yields numbers \<open>r \<le> r'\<close> in
  \<open>[0, 1]\<close>, each within \<open>2\<^sup>-\<^sup>2\<^sup>2\<close> of the exact quotient \<open>(v - min) / (max - min)\<close>; it
  yields a zero at \<open>min\<close> and 1 at \<open>max\<close>.
\<close>

theorem getPercent_bounded_monotone:
  assumes "float4_value v = Some x" "float4_value v' = Some x'"
      and "float4_value mn = Some l" "float4_value mx = Some h"
      and "l < h" "l \<le> x" "x \<le> x'" "x' \<le> h"
      and "h - l < 2 ^ 128 - 2 ^ 103"
  shows "\<exists>r r'.
    fnum (getPercent v mn mx True) = Some r \<and> fnum (getPercent v' mn mx True) = Some r' \<and>
    0 \<le> r \<and> r \<le> r' \<and> r' \<le> 1 \<and>
    \<bar>r - (x - l) / (h - l)\<bar> \<le> 1 / 2 ^ 22 \<and> \<bar>r' - (x' - l) / (h - l)\<bar> \<le> 1 / 2 ^ 22 \<and>
    fnum (getPercent mn mn mx True) = Some 0 \<and> getPercent mx mn mx True = Finite 1"
proof -
  obtain d where d: "fsub float4_round mx mn = Finite d" "float4_round (h - l) = Finite d"
    "0 < d" "\<bar>d - (h - l)\<bar> \<le> (h - l) / 2 ^ 24"
    by (rule float4_span [OF assms(3,4,5,9)])
  have xh: "x \<le> h" and lx': "l \<le> x'" using assms(6,7,8) by simp_all
  obtain n r where r: "float4_round (x - l) = Finite n" "0 \<le> n" "n \<le> d"
    "\<bar>n - (x - l)\<bar> \<le> (x - l) / 2 ^ 24"
    "float4_round (n / d) = Finite r" "0 \<le> r" "r \<le> 1" "\<bar>r - n / d\<bar> \<le> 1 / 2 ^ 24"
    "fnum (getPercent v mn mx True) = Some r"
    by (rule getPercent_float4 [OF assms(1,3) d(2,1,3) assms(6) xh])
  obtain n' r' where r': "float4_round (x' - l) = Finite n'" "0 \<le> n'" "n' \<le> d"
    "\<bar>n' - (x' - l)\<bar> \<le> (x' - l) / 2 ^ 24"
    "float4_round (n' / d) = Finite r'" "0 \<le> r'" "r' \<le> 1" "\<bar>r' - n' / d\<bar> \<le> 1 / 2 ^ 24"
    "fnum (getPercent v' mn mx True) = Some r'"
    by (rule getPercent_float4 [OF assms(2,3) d(2,1,3) lx' assms(8)])
  have "fle (float4_round (x - l)) (float4_round (x' - l))"
    using assms(7) by (intro float4_round_mono) simp
  then have "n \<le> n'" by (simp add: r(1) r'(1))
  then have "n / d \<le> n' / d" using d(3) by (simp add: divide_right_mono)
  then have "fle (float4_round (n / d)) (float4_round (n' / d))" by (rule float4_round_mono)
  then have le: "r \<le> r'" by (simp add: r(5) r'(5))
  have "\<bar>n / d - (x - l) / (h - l)\<bar> \<le> 3 / 2 ^ 24"
    by (rule quotient_error [OF _ _ _ d(3) r(4) d(4)]) (use assms(5,6) xh in simp_all)
  then have a: "\<bar>r - (x - l) / (h - l)\<bar> \<le> 1 / 2 ^ 22" using r(8) by (rule abs_diff_chain)
  have "\<bar>n' / d - (x' - l) / (h - l)\<bar> \<le> 3 / 2 ^ 24"
    by (rule quotient_error [OF _ _ _ d(3) r'(4) d(4)]) (use assms(5,8) lx' in simp_all)
  then have a': "\<bar>r' - (x' - l) / (h - l)\<bar> \<le> 1 / 2 ^ 22" using r'(8) by (rule abs_diff_chain)
  have lo: "fnum (getPercent mn mn mx True) = Some 0"
  proof -
    obtain n0 r0 where "float4_round (l - l) = Finite n0" "float4_round (n0 / d) = Finite r0"
      "fnum (getPercent mn mn mx True) = Some r0"
      by (rule getPercent_float4 [OF assms(3,3) d(2,1,3)]) (use assms(5) in simp_all)
    then show ?thesis by (simp add: float4_round_zero)
  qed
  have hi: "getPercent mx mn mx True = Finite 1"
  proof -
    obtain n1 r1 where "float4_round (h - l) = Finite n1" "float4_round (n1 / d) = Finite r1"
      "n1 \<noteq> 0 \<Longrightarrow> getPercent mx mn mx True = Finite r1"
      by (rule getPercent_float4 [OF assms(4,3) d(2,1,3)]) (use assms(5) in simp_all)
    moreover have "float4_round 1 = Finite 1" using float4_round_int [of 1] by simp
    ultimately show ?thesis using d(2,3) by simp
  qed
  from r(9) r'(9) r(6) le r'(7) a a' lo hi show ?thesis by blast
qed

text \<open>
  With \<open>min\<close> the most negative and \<open>max\<close> the largest finite number of the format, both
  differences overflow to the positive infinity and the result at \<open>v = max\<close> is a NaN,
  which the clamp leaves as it is.
\<close>

theorem getPercent_overflow_counterexample:
  "float4_value (Finite float4_max) = Some float4_max \<and>
   float4_value (Finite (- float4_max)) = Some (- float4_max) \<and>
   - float4_max < float4_max \<and>
   2 ^ 128 - 2 ^ 103 \<le> float4_max - (- float4_max) \<and>
   getPercent (Finite float4_max) (Finite (- float4_max)) (Finite float4_max) True = NaN"
proof -
  have "fsub float4_round (Finite float4_max) (Finite (- float4_max)) = PlusInf"
    using float4_round_max(3) by (simp add: fsub_Finite)
  then have "getPercent (Finite float4_max) (Finite (- float4_max)) (Finite float4_max) True = NaN"
    by (simp add: getPercent_def fdiv_def fgt_def float4_zero float4_one)
  moreover have "- float4_max < float4_max" "2 ^ 128 - 2 ^ 103 \<le> float4_max - (- float4_max)"
    by (simp_all add: float4_max_def)
  ultimately show ?thesis by (simp add: float4_round_max)
qed

text \<open>The voltages 1.5 and 2.5 in the range from 0.5 to 4.5 give the fractions .25 and .5.\<close>

theorem getPercent_bounded_monotone_witness:
  "float4_value (Finite (3 / 2)) = Some (3 / 2) \<and> float4_value (Finite (5 / 2)) = Some (5 / 2) \<and>
   float4_value (Finite (1 / 2)) = Some (1 / 2) \<and> float4_value (Finite (9 / 2)) = Some (9 / 2) \<and>
   (\<exists>r r'.
      fnum (getPercent (Finite (3 / 2)) (Finite (1 / 2)) (Finite (9 / 2)) True) = Some r \<and>
      fnum (getPercent (Finite (5 / 2)) (Finite (1 / 2)) (Finite (9 / 2)) True) = Some r' \<and>
      0 \<le> r \<and> r \<le> r' \<and> r' \<le> 1 \<and>
      \<bar>r - 1 / 4\<bar> \<le> 1 / 2 ^ 22 \<and> \<bar>r' - 1 / 2\<bar> \<le> 1 / 2 ^ 22) \<and>
   getPercent (Finite (3 / 2)) (Finite (1 / 2)) (Finite (9 / 2)) True = Finite (1 / 4) \<and>
   getPercent (Finite (5 / 2)) (Finite (1 / 2)) (Finite (9 / 2)) True = Finite (1 / 2)"
proof -
  have h: "float4_value (Finite (3 / 2)) = Some (3 / 2)" "float4_value (Finite (5 / 2)) = Some (5 / 2)"
    "float4_value (Finite (1 / 2)) = Some (1 / 2)" "float4_value (Finite (9 / 2)) = Some (9 / 2)"
    by (simp_all add: float4_round_3_2 float4_round_5_2 float4_round_half float4_round_9_2)
  have f: "(9 / 2 :: rat) - 1 / 2 < 2 ^ 128 - 2 ^ 103" by simp
  have o: "(1 / 2 :: rat) < 9 / 2" "(1 / 2 :: rat) \<le> 3 / 2" "(3 / 2 :: rat) \<le> 5 / 2"
    "(5 / 2 :: rat) \<le> 9 / 2"
    by simp_all
  from getPercent_bounded_monotone [OF h o f] obtain r r' where r:
    "fnum (getPercent (Finite (3 / 2)) (Finite (1 / 2)) (Finite (9 / 2)) True) = Some r"
    "fnum (getPercent (Finite (5 / 2)) (Finite (1 / 2)) (Finite (9 / 2)) True) = Some r'"
    "0 \<le> r" "r \<le> r'" "r' \<le> 1"
    "\<bar>r - (3 / 2 - 1 / 2) / (9 / 2 - 1 / 2)\<bar> \<le> 1 / 2 ^ 22"
    "\<bar>r' - (5 / 2 - 1 / 2) / (9 / 2 - 1 / 2)\<bar> \<le> 1 / 2 ^ 22"
    by blast
  from r(6,7) have "\<bar>r - 1 / 4\<bar> \<le> 1 / 2 ^ 22" "\<bar>r' - 1 / 2\<bar> \<le> 1 / 2 ^ 22" by simp_all
  with r(1-5) h getPercent_voltages show ?thesis by blast
qed

text \<open>
  C10, as the code has it. The conversions are computed in \<open>double\<close> arithmetic with the
  constants 16 pulses per rotation, an 18 inch wheel and 63360 inches per mile, and with
  the decimal constant 3.14159265 in the place of \<open>pi\<close>. A frequency of 16 gives exactly
  60, an input of 0 gives 0, and for inputs of a magnitude between \<open>2\<^sup>-\<^sup>1\<^sup>0\<^sup>0\<close> and
  \<open>2\<^sup>1\<^sup>0\<^sup>0\<close> the results are finite and within the relative error \<open>2\<^sup>-\<^sup>5\<^sup>1\<close> of
  \<open>freq / 16 * 60\<close> and \<open>2\<^sup>-\<^sup>5\<^sup>0\<close> of \<open>3.14159265 * 18 * rpm * 60 / 63360\<close>. Both are
  functions of their argument alone.
\<close>

theorem wheel_speed_conversions:
  assumes "1 / 2 ^ 100 \<le> \<bar>f\<bar>" "\<bar>f\<bar> \<le> 2 ^ 100" "1 / 2 ^ 100 \<le> \<bar>r\<bar>" "\<bar>r\<bar> \<le> 2 ^ 100"
  shows "freq_to_rpm (Finite 16) = Finite 60 \<and>
         freq_to_rpm (Finite 0) = Finite 0 \<and> rpm_to_mph (Finite 0) = Finite 0 \<and>
         (\<exists>y. freq_to_rpm (Finite f) = Finite y \<and>
              \<bar>y - f / 16 * 60\<bar> \<le> \<bar>f / 16 * 60\<bar> / 2 ^ 51) \<and>
         (\<exists>y. rpm_to_mph (Finite r) = Finite y \<and>
              \<bar>y - 314159265 / 100000000 * 18 * r * 60 / 63360\<bar>
                \<le> \<bar>314159265 / 100000000 * 18 * r * 60 / 63360\<bar> / 2 ^ 50)"
proof -
  have z: "freq_to_rpm (Finite 0) = Finite 0" "rpm_to_mph (Finite 0) = Finite 0"
    using double_pi_constant double_pi_diameter
    by (simp_all add: freq_to_rpm_def rpm_to_mph_def double_constants fdiv_pos fmul_pos_left
        fmul_pos_right double_round_zero)
  obtain y where "freq_to_rpm (Finite f) = Finite y"
    "\<bar>y - f / 16 * 60\<bar> \<le> \<bar>f / 16 * 60\<bar> / 2 ^ 51"
    using freq_to_rpm_accuracy [OF assms(1,2)] by blast
  moreover obtain y' where "rpm_to_mph (Finite r) = Finite y'"
    "\<bar>y' - 314159265 / 100000000 * 18 * r * 60 / 63360\<bar>
       \<le> \<bar>314159265 / 100000000 * 18 * r * 60 / 63360\<bar> / 2 ^ 50"
    using rpm_to_mph_accuracy [OF assms(3,4)] by blast
  ultimately show ?thesis using freq_to_rpm_16 z by blast
qed

theorem wheel_speed_conversions_witness:
  "freq_to_rpm (Finite 16) = Finite 60 \<and>
   (\<exists>y. rpm_to_mph (Finite 60) = Finite y \<and>
        \<bar>y - 314159265 / 100000000 * 18 * 60 * 60 / 63360\<bar>
          \<le> \<bar>314159265 / 100000000 * 18 * 60 * 60 / 63360\<bar> / 2 ^ 50)"
proof -
  have h: "1 / 2 ^ 100 \<le> \<bar>16 :: rat\<bar>" "\<bar>16 :: rat\<bar> \<le> 2 ^ 100"
          "1 / 2 ^ 100 \<le> \<bar>60 :: rat\<bar>" "\<bar>60 :: rat\<bar> \<le> 2 ^ 100"
    by simp_all
  from wheel_speed_conversions [OF h] show ?thesis by blast
qed

text \<open>
  At 60 rotations per minute the result lies below \<open>pi * 18 * 60 * 60 / 63360\<close> by more
  than \<open>3 / 10 ^ 9\<close>, more than a million times the rounding error of the \<open>double\<close>
  arithmetic.
\<close>

theorem rpm_to_mph_pi_counterexample:
  "rpm_to_mph (Finite 60) = Finite (7235015874489149 / 2251799813685248) \<and>
   real_of_rat (7235015874489149 / 2251799813685248) + 3 / 10 ^ 9 < pi * 18 * 60 * 60 / 63360"
proof -
  have "real_of_rat (7235015874489149 / 2251799813685248) + 3 / 10 ^ 9 <
          3.1415926535 * 18 * 60 * 60 / 63360"
    by (simp add: of_rat_divide)
  also have "\<dots> < pi * 18 * 60 * 60 / 63360" using pi_lower by simp
  finally show ?thesis using rpm_to_mph_60 by simp
qed

end
